(* ===== verification/Prelude.thy ===== *)
theory Prelude
  imports Main "HOL-Library.Word"
begin

text \<open>
  The vocabulary every component shares: the machine integers of the source at their width,
  Rust's \<open>Result\<close> as a sum, clock readings, and the part of Rust's standard library
  that the proxy leans on for text (decimal printing, integer parsing, \<open>split_once\<close>) and for
  ordered maps (the in-order contents of a \<open>BTreeMap\<close>). The generic lemmas on lists and sums
  that the component proofs share are here too, in the collections \<open>result_simps\<close> and
  \<open>count_simps\<close> or in the simpset.
\<close>

named_theorems result_simps \<open>equations that evaluate the fallible operations of the model\<close>
named_theorems count_simps \<open>how counting over a task list changes with one update\<close>

section \<open>Machine integers, results, clock readings\<close>

type_synonym u8 = "8 word"
type_synonym u16 = "16 word"
type_synonym u32 = "32 word"

text \<open>\<open>usize\<close> on the 64-bit targets the proxy is built for.\<close>

type_synonym usize = "64 word"

text \<open>
  \<open>std::time::Instant\<close> and \<open>Duration\<close> are counted in nanoseconds; an instant is an offset
  from the start of the monotonic clock.
\<close>

type_synonym instant = nat
type_synonym duration = nat

definition from_secs :: "nat \<Rightarrow> duration" where
  "from_secs s = s * 1000000000"

text \<open>Rust's \<open>Result<T, E>\<close>: \<open>Err\<close> is the left injection, \<open>Ok\<close> the right one.\<close>

abbreviation Err :: "'e \<Rightarrow> 'e + 'a" where
  "Err \<equiv> Inl"

abbreviation Ok :: "'a \<Rightarrow> 'e + 'a" where
  "Ok \<equiv> Inr"

fun is_err :: "'e + 'a \<Rightarrow> bool" where
  "is_err (Err _) = True"
| "is_err (Ok _) = False"

lemma is_err_iff: "is_err r \<longleftrightarrow> (\<exists>e. r = Err e)"
  by (cases r) auto

text \<open>\<open>Option::get_or_insert\<close>: keep the value that is there.\<close>

fun get_or_insert :: "'a option \<Rightarrow> 'a \<Rightarrow> 'a option" where
  "get_or_insert None v = Some v"
| "get_or_insert (Some u) v = Some u"

lemma get_or_insert_not_None [simp]: "get_or_insert x v \<noteq> None"
  by (cases x) auto

lemma unat_u16_le: "unat (p :: u16) \<le> 65535"
proof -
  have "unat p < 2 ^ LENGTH(16)" by (rule unsigned_less)
  then show ?thesis by simp
qed

lemma unat_u8_le: "unat (b :: u8) \<le> 255"
proof -
  have "unat b < 2 ^ LENGTH(8)" by (rule unsigned_less)
  then show ?thesis by simp
qed

section \<open>Text: printing and parsing of decimal numbers\<close>

text \<open>The decimal digits of Rust's \<open>Display\<close> for unsigned integers.\<close>

definition digit_char :: "nat \<Rightarrow> char" where
  "digit_char d = char_of (48 + d)"

fun show_nat :: "nat \<Rightarrow> string" where
  "show_nat n = (if n < 10 then [digit_char n]
                 else show_nat (n div 10) @ [digit_char (n mod 10)])"

declare show_nat.simps [simp del]

definition show_u16 :: "u16 \<Rightarrow> string" where
  "show_u16 w = show_nat (unat w)"

text \<open>\<open>char::to_digit(10)\<close>.\<close>

definition to_digit :: "char \<Rightarrow> nat option" where
  "to_digit c = (let k = (of_char c :: nat) in if 48 \<le> k \<and> k \<le> 57 then Some (k - 48) else None)"

lemma to_digit_digit_char [simp]: "d < 10 \<Longrightarrow> to_digit (digit_char d) = Some d"
  by (simp add: to_digit_def digit_char_def)

lemma to_digit_less: "to_digit c = Some d \<Longrightarrow> d < 10"
  by (auto simp: to_digit_def Let_def split: if_splits)

text \<open>
  The accumulation loop of \<open>u16::from_str\<close>: each step multiplies by the radix and adds the
  digit, and stops with an error at a character that is no digit or when the value leaves the
  type (\<open>limit\<close> is the largest value of the type).
\<close>

fun parse_digits :: "nat \<Rightarrow> nat \<Rightarrow> string \<Rightarrow> nat option" where
  "parse_digits limit acc [] = Some acc"
| "parse_digits limit acc (c # cs) =
     (case to_digit c of
        None \<Rightarrow> None
      | Some d \<Rightarrow> if acc * 10 + d \<le> limit then parse_digits limit (acc * 10 + d) cs else None)"

text \<open>
  \<open>str::parse::<u16>()\<close>: the empty string is an error, one leading plus sign is skipped when
  something follows it, and the rest must be digits of a value below \<open>2 ^ 16\<close>.
\<close>

definition parse_u16 :: "string \<Rightarrow> u16 option" where
  "parse_u16 s =
     (case s of
        [] \<Rightarrow> None
      | c # cs \<Rightarrow>
          map_option word_of_nat
            (parse_digits 65535 0 (if c = CHR ''+'' \<and> cs \<noteq> [] then cs else c # cs)))"

lemma parse_digits_append:
  "parse_digits l acc (xs @ ys) =
     (case parse_digits l acc xs of None \<Rightarrow> None | Some v \<Rightarrow> parse_digits l v ys)"
  by (induction xs arbitrary: acc) (auto split: option.splits)

lemma parse_digits_show_nat: "n \<le> l \<Longrightarrow> parse_digits l 0 (show_nat n) = Some n"
proof (induction n rule: show_nat.induct)
  case (1 n)
  show ?case
  proof (cases "n < 10")
    case True
    with "1.prems" show ?thesis by (simp add: show_nat.simps [of n])
  next
    case False
    moreover from "1.prems" have "n div 10 \<le> l" by (meson div_le_dividend le_trans)
    ultimately have "parse_digits l 0 (show_nat (n div 10)) = Some (n div 10)"
      using "1.IH" by simp
    with False "1.prems" show ?thesis
      by (subst show_nat.simps) (simp add: parse_digits_append)
  qed
qed

lemma show_nat_digits: "c \<in> set (show_nat n) \<Longrightarrow> \<exists>d < 10. c = digit_char d"
proof (induction n rule: show_nat.induct)
  case (1 n)
  have last: "\<exists>d < 10. digit_char (n mod 10) = digit_char d"
    by (rule exI [of _ "n mod 10"]) simp
  show ?case
  proof (cases "n < 10")
    case True
    with "1.prems" show ?thesis by (auto simp: show_nat.simps [of n])
  next
    case False
    with "1.prems" have "c \<in> set (show_nat (n div 10)) \<or> c = digit_char (n mod 10)"
      by (auto simp: show_nat.simps [of n])
    with "1.IH" [OF False] last show ?thesis by auto
  qed
qed

lemma show_nat_not_Nil [simp]: "show_nat n \<noteq> []"
  by (subst show_nat.simps) simp

lemma digit_char_neq:
  "d < 10 \<Longrightarrow> (of_char c :: nat) < 48 \<or> 57 < (of_char c :: nat) \<Longrightarrow> digit_char d \<noteq> c"
  by (auto simp: digit_char_def)

lemma show_nat_free:
  assumes "(of_char c :: nat) < 48 \<or> 57 < (of_char c :: nat)"
  shows "c \<notin> set (show_nat n)"
  using assms digit_char_neq show_nat_digits by blast

lemma parse_u16_show_u16 [simp]: "parse_u16 (show_u16 p) = Some p"
proof -
  obtain c cs where s: "show_u16 p = c # cs"
    by (cases "show_u16 p") (auto simp: show_u16_def)
  then have "c \<in> set (show_nat (unat p))" by (simp add: show_u16_def)
  then have "c \<noteq> CHR ''+''" using show_nat_free [of "CHR ''+''"] by auto
  moreover have "unat p \<le> 65535" by (rule unat_u16_le)
  ultimately show ?thesis
    using s parse_digits_show_nat [of "unat p" 65535] by (simp add: parse_u16_def show_u16_def)
qed

text \<open>\<open>str::split_once\<close> with a one-character separator: cut at its first occurrence.\<close>

fun split_once :: "char \<Rightarrow> string \<Rightarrow> (string \<times> string) option" where
  "split_once sep [] = None"
| "split_once sep (c # cs) =
     (if c = sep then Some ([], cs)
      else map_option (\<lambda>(a, b). (c # a, b)) (split_once sep cs))"

lemma split_once_None_iff: "split_once sep s = None \<longleftrightarrow> sep \<notin> set s"
  by (induction s) auto

lemma split_once_Some:
  "split_once sep s = Some (a, b) \<longleftrightarrow> s = a @ sep # b \<and> sep \<notin> set a"
proof (induction s arbitrary: a)
  case Nil
  then show ?case by simp
next
  case (Cons c cs)
  then show ?case by (cases a) (auto split: if_splits)
qed

section \<open>Ordered maps\<close>

text \<open>
  The in-order contents of a \<open>BTreeMap\<close>: an association list whose keys strictly ascend.
  \<open>btree_insert\<close> is \<open>insert\<close> (it replaces the value of a key that is there), lookup is
  \<open>map_of\<close>, and the keys come out in the order of the list.
\<close>

fun btree_insert :: "'k::linorder \<Rightarrow> 'v \<Rightarrow> ('k \<times> 'v) list \<Rightarrow> ('k \<times> 'v) list" where
  "btree_insert k v [] = [(k, v)]"
| "btree_insert k v ((k', v') # m) =
     (if k < k' then (k, v) # (k', v') # m
      else if k = k' then (k, v) # m
      else (k', v') # btree_insert k v m)"

definition btree_inv :: "('k::linorder \<times> 'v) list \<Rightarrow> bool" where
  "btree_inv m \<longleftrightarrow> sorted_wrt (<) (map fst m)"

lemma btree_inv_Nil [simp]: "btree_inv []"
  by (simp add: btree_inv_def)

lemma set_btree_insert_keys: "fst ` set (btree_insert k v m) = insert k (fst ` set m)"
  by (induction k v m rule: btree_insert.induct) auto

lemma btree_insert_inv: "btree_inv m \<Longrightarrow> btree_inv (btree_insert k v m)"
proof (induction k v m rule: btree_insert.induct)
  case (1 k v)
  then show ?case by (simp add: btree_inv_def)
next
  case (2 k v k' v' m)
  have keys: "set (map fst (btree_insert k v m)) = insert k (set (map fst m))"
    using set_btree_insert_keys [of k v m] by simp
  from 2 show ?case
    by (auto simp: btree_inv_def keys simp del: set_map intro: less_trans)
qed

lemma map_of_btree_insert:
  "btree_inv m \<Longrightarrow> map_of (btree_insert k v m) = (map_of m)(k \<mapsto> v)"
proof (induction k v m rule: btree_insert.induct)
  case (1 k v)
  then show ?case by simp
next
  case (2 k v k' v' m)
  then have "btree_inv m" by (simp add: btree_inv_def)
  with 2 show ?case by (auto simp: fun_eq_iff)
qed

section \<open>Counting in a list that is updated at one index\<close>

definition count_if :: "('a \<Rightarrow> bool) \<Rightarrow> 'a list \<Rightarrow> nat" where
  "count_if P xs = length (filter P xs)"

lemma count_if_Nil [simp]: "count_if P [] = 0"
  by (simp add: count_if_def)

lemma count_if_append [count_simps]: "count_if P (xs @ ys) = count_if P xs + count_if P ys"
  by (simp add: count_if_def)

lemma count_if_Cons [count_simps]:
  "count_if P (x # xs) = (if P x then 1 else 0) + count_if P xs"
  by (simp add: count_if_def)

lemma count_if_split:
  assumes "i < length xs"
  shows "count_if P xs = count_if P (take i xs) + (if P (xs ! i) then 1 else 0)
           + count_if P (drop (Suc i) xs)"
proof -
  have "xs = take i xs @ [xs ! i] @ drop (Suc i) xs"
    using assms by (simp add: id_take_nth_drop)
  then have "count_if P xs = count_if P (take i xs @ [xs ! i] @ drop (Suc i) xs)"
    by simp
  then show ?thesis by (simp add: count_simps)
qed

lemma count_if_update:
  assumes "i < length xs"
  shows "count_if P (xs[i := y]) + (if P (xs ! i) then 1 else 0)
           = count_if P xs + (if P y then 1 else 0)"
  using assms count_if_split [of i xs P] count_if_split [of i "xs[i := y]" P] by simp

lemma count_if_pos: "i < length xs \<Longrightarrow> P (xs ! i) \<Longrightarrow> 0 < count_if P xs"
  by (auto simp: count_if_def filter_empty_conv)

lemma count_if_le: "(\<And>x. P x \<Longrightarrow> Q x) \<Longrightarrow> count_if P xs \<le> count_if Q xs"
  by (induction xs) (auto simp: count_if_def)

end
