(* ===== verification/Net_Addr.thy ===== *)
theory Net_Addr
  imports Prelude "HOL-Library.Monad_Syntax"
begin

text \<open>
  Addresses of \<open>std::net\<close> as the proxy uses them: \<open>IpAddr\<close> and \<open>SocketAddr\<close>, the
  \<open>Display\<close> form that \<open>addr.to_string()\<close> gives (used by \<open>maybe_into_bind_error\<close>), and the
  parser behind \<open>host.parse::<SocketAddr>()\<close> (used by the resolver). A parser takes the input
  that is left and returns a value with what remains after it, or \<open>None\<close> with nothing consumed.
\<close>

section \<open>The types\<close>

text \<open>An IPv6 address is the list of its eight 16-bit segments.\<close>

datatype ip_addr = V4 u8 u8 u8 u8 | V6 "u16 list"

text \<open>
  The scope id is part of the IPv6 form only and 0 otherwise. \<open>SocketAddr::new\<close> and the parser
  always give flow information 0, so it is left out.
\<close>

datatype socket_addr = SocketAddr (sa_ip: ip_addr) (sa_port: u16) (sa_scope: u32)

definition socket_addr_new :: "ip_addr \<Rightarrow> u16 \<Rightarrow> socket_addr" where
  "socket_addr_new ip port = SocketAddr ip port 0"

section \<open>Display\<close>

definition show_u8 :: "u8 \<Rightarrow> string" where
  "show_u8 b = show_nat (unat b)"

definition hex_char :: "nat \<Rightarrow> char" where
  "hex_char d = (if d < 10 then digit_char d else char_of (87 + d))"

fun show_hex :: "nat \<Rightarrow> string" where
  "show_hex n = (if n < 16 then [hex_char n] else show_hex (n div 16) @ [hex_char (n mod 16)])"

declare show_hex.simps [simp del]

fun show_segments :: "u16 list \<Rightarrow> string" where
  "show_segments [] = []"
| "show_segments [g] = show_hex (unat g)"
| "show_segments (g # gs) = show_hex (unat g) @ '':'' @ show_segments gs"

text \<open>
  The longest run of zero segments, as (start, length), the first one on a tie; the accumulators
  are the longest run so far and the run that ends here.
\<close>

fun zero_span :: "nat \<Rightarrow> u16 list \<Rightarrow> nat \<times> nat \<Rightarrow> nat \<times> nat \<Rightarrow> nat \<times> nat" where
  "zero_span i [] longest cur = longest"
| "zero_span i (g # gs) longest cur =
     (if g = 0 then
        let cur' = ((if snd cur = 0 then i else fst cur), snd cur + 1)
        in zero_span (i + 1) gs (if snd cur' > snd longest then cur' else longest) cur'
      else zero_span (i + 1) gs longest (0, 0))"

definition show_v4 :: "u8 \<Rightarrow> u8 \<Rightarrow> u8 \<Rightarrow> u8 \<Rightarrow> string" where
  "show_v4 a b c d =
     show_u8 a @ ''.'' @ show_u8 b @ ''.'' @ show_u8 c @ ''.'' @ show_u8 d"

definition show_v6 :: "u16 list \<Rightarrow> string" where
  "show_v6 gs =
     (if take 6 gs = [0, 0, 0, 0, 0, 65535] \<and> length gs = 8 then
        ''::ffff:'' @ show_v4 (ucast (gs ! 6 div 256)) (ucast (gs ! 6)) (ucast (gs ! 7 div 256))
                        (ucast (gs ! 7))
      else let (start, len) = zero_span 0 gs (0, 0) (0, 0)
        in if len > 1 then show_segments (take start gs) @ ''::'' @ show_segments (drop (start + len) gs)
           else show_segments gs)"

fun show_socket_addr :: "socket_addr \<Rightarrow> string" where
  "show_socket_addr (SocketAddr (V4 a b c d) port scope) = show_v4 a b c d @ '':'' @ show_u16 port"
| "show_socket_addr (SocketAddr (V6 gs) port scope) =
     ''['' @ show_v6 gs @ (if scope = 0 then [] else ''%'' @ show_nat (unat scope)) @ '']:''
       @ show_u16 port"

section \<open>Parsing\<close>

text \<open>\<open>char::to_digit\<close> with radix 10 or 16.\<close>

definition to_digit_radix :: "nat \<Rightarrow> char \<Rightarrow> nat option" where
  "to_digit_radix radix c =
     (let k = (of_char c :: nat);
          d = (if 48 \<le> k \<and> k \<le> 57 then Some (k - 48)
               else if 97 \<le> k \<and> k \<le> 102 then Some (k - 87)
               else if 65 \<le> k \<and> k \<le> 70 then Some (k - 55) else None)
      in case d of None \<Rightarrow> None | Some v \<Rightarrow> if v < radix then Some v else None)"

text \<open>The longest prefix of digits, and what follows it.\<close>

fun take_digits :: "nat \<Rightarrow> string \<Rightarrow> nat list \<times> string" where
  "take_digits radix [] = ([], [])"
| "take_digits radix (c # cs) =
     (case to_digit_radix radix c of
        None \<Rightarrow> ([], c # cs)
      | Some d \<Rightarrow> let (ds, rest) = take_digits radix cs in (d # ds, rest))"

definition digits_value :: "nat \<Rightarrow> nat list \<Rightarrow> nat" where
  "digits_value radix ds = foldl (\<lambda>a d. a * radix + d) 0 ds"

text \<open>
  \<open>read_number\<close>: at least one digit, at most \<open>max_digits\<close> of them if that is given, a value of
  at most \<open>limit\<close>, and no leading zero before further digits unless \<open>allow_zero_prefix\<close>.
\<close>

definition read_number ::
  "nat \<Rightarrow> nat option \<Rightarrow> nat \<Rightarrow> bool \<Rightarrow> string \<Rightarrow> (nat \<times> string) option" where
  "read_number radix max_digits limit allow_zero_prefix s =
     (let (ds, rest) = take_digits radix s; v = digits_value radix ds in
      if (case max_digits of None \<Rightarrow> False | Some k \<Rightarrow> k < length ds) then None
      else if limit < v then None
      else if ds = [] then None
      else if \<not> allow_zero_prefix \<and> hd s = CHR ''0'' \<and> 1 < length ds then None
      else Some (v, rest))"

fun read_given_char :: "char \<Rightarrow> string \<Rightarrow> string option" where
  "read_given_char c [] = None"
| "read_given_char c (x # xs) = (if x = c then Some xs else None)"

definition read_separator ::
  "char \<Rightarrow> nat \<Rightarrow> (string \<Rightarrow> ('a \<times> string) option) \<Rightarrow> string \<Rightarrow> ('a \<times> string) option" where
  "read_separator sep i inner s =
     (if 0 < i then read_given_char sep s \<bind> inner else inner s)"

definition read_octet :: "string \<Rightarrow> (nat \<times> string) option" where
  "read_octet = read_number 10 (Some 3) 255 False"

definition read_ipv4_addr :: "string \<Rightarrow> (ip_addr \<times> string) option" where
  "read_ipv4_addr s = do {
     (a, s1) \<leftarrow> read_separator CHR ''.'' 0 read_octet s;
     (b, s2) \<leftarrow> read_separator CHR ''.'' 1 read_octet s1;
     (c, s3) \<leftarrow> read_separator CHR ''.'' 2 read_octet s2;
     (d, s4) \<leftarrow> read_separator CHR ''.'' 3 read_octet s3;
     Some (V4 (word_of_nat a) (word_of_nat b) (word_of_nat c) (word_of_nat d), s4)
   }"

text \<open>
  \<open>read_groups\<close>: up to \<open>r\<close> more colon-separated groups, the next one being number \<open>i\<close>; where
  two groups still fit, a trailing IPv4 address may stand for them. The flag says it did.
\<close>

fun read_groups :: "nat \<Rightarrow> nat \<Rightarrow> string \<Rightarrow> u16 list \<times> bool \<times> string" where
  "read_groups i 0 s = ([], False, s)"
| "read_groups i (Suc r) s =
     (case (if 0 < r then read_separator CHR '':'' i read_ipv4_addr s else None) of
        Some (V4 a b c d, s') \<Rightarrow> ([ucast a * 256 + ucast b, ucast c * 256 + ucast d], True, s')
      | _ \<Rightarrow>
        (case read_separator CHR '':'' i (read_number 16 (Some 4) 65535 True) s of
           None \<Rightarrow> ([], False, s)
         | Some (g, s') \<Rightarrow>
             let (gs, v4, s'') = read_groups (i + 1) r s' in (word_of_nat g # gs, v4, s'')))"

definition read_ipv6_addr :: "string \<Rightarrow> (ip_addr \<times> string) option" where
  "read_ipv6_addr s =
     (let (head, head_v4, s1) = read_groups 0 8 s in
      if length head = 8 then Some (V6 head, s1)
      else if head_v4 then None
      else do {
        s2 \<leftarrow> read_given_char CHR '':'' s1;
        s3 \<leftarrow> read_given_char CHR '':'' s2;
        let (tail, tail_v4, s4) = read_groups 0 (8 - (length head + 1)) s3;
        Some (V6 (head @ replicate (8 - length tail - length head) 0 @ tail), s4)
      })"

definition read_port :: "string \<Rightarrow> (u16 \<times> string) option" where
  "read_port s = do {
     s1 \<leftarrow> read_given_char CHR '':'' s;
     (p, s2) \<leftarrow> read_number 10 None 65535 True s1;
     Some (word_of_nat p, s2)
   }"

definition read_scope_id :: "string \<Rightarrow> (u32 \<times> string) option" where
  "read_scope_id s = do {
     s1 \<leftarrow> read_given_char CHR ''%'' s;
     (n, s2) \<leftarrow> read_number 10 None 4294967295 True s1;
     Some (word_of_nat n, s2)
   }"

definition read_socket_addr_v4 :: "string \<Rightarrow> (socket_addr \<times> string) option" where
  "read_socket_addr_v4 s = do {
     (ip, s1) \<leftarrow> read_ipv4_addr s;
     (port, s2) \<leftarrow> read_port s1;
     Some (SocketAddr ip port 0, s2)
   }"

definition read_socket_addr_v6 :: "string \<Rightarrow> (socket_addr \<times> string) option" where
  "read_socket_addr_v6 s = do {
     s1 \<leftarrow> read_given_char CHR ''['' s;
     (ip, s2) \<leftarrow> read_ipv6_addr s1;
     let (scope, s3) = (case read_scope_id s2 of None \<Rightarrow> (0, s2) | Some r \<Rightarrow> r);
     s4 \<leftarrow> read_given_char CHR '']'' s3;
     (port, s5) \<leftarrow> read_port s4;
     Some (SocketAddr ip port scope, s5)
   }"

text \<open>\<open>str::parse::<SocketAddr>()\<close>: either form, with nothing left over.\<close>

definition parse_socket_addr :: "string \<Rightarrow> socket_addr option" where
  "parse_socket_addr s =
     (case (case read_socket_addr_v4 s of None \<Rightarrow> read_socket_addr_v6 s | Some r \<Rightarrow> Some r) of
        None \<Rightarrow> None
      | Some (addr, rest) \<Rightarrow> if rest = [] then Some addr else None)"

section \<open>Printing and parsing agree on IPv4 addresses\<close>

lemma to_digit_radix_digit_char [simp]: "d < 10 \<Longrightarrow> to_digit_radix 10 (digit_char d) = Some d"
  by (simp add: to_digit_radix_def digit_char_def)

text \<open>What stops a run of decimal digits: the end of the input or a character that is no digit.\<close>

definition digits_end :: "string \<Rightarrow> bool" where
  "digits_end s \<longleftrightarrow> (case s of [] \<Rightarrow> True | c # cs \<Rightarrow> to_digit_radix 10 c = None)"

lemma digits_end_simps [simp]:
  "digits_end []"
  "digits_end (CHR ''.'' # s)"
  "digits_end (CHR '':'' # s)"
  by (simp_all add: digits_end_def to_digit_radix_def)

lemma take_digits_end: "digits_end s \<Longrightarrow> take_digits 10 s = ([], s)"
  by (cases s) (auto simp: digits_end_def)

lemma digits_value_snoc: "digits_value r (ds @ [d]) = digits_value r ds * r + d"
  by (simp add: digits_value_def)

text \<open>The digits that \<open>show_nat\<close> prints, as numbers.\<close>

fun digits_of :: "nat \<Rightarrow> nat list" where
  "digits_of n = (if n < 10 then [n] else digits_of (n div 10) @ [n mod 10])"

declare digits_of.simps [simp del]

lemma show_nat_digits_of: "show_nat n = List.map digit_char (digits_of n)"
proof (induction n rule: digits_of.induct)
  case (1 n)
  then show ?case
    by (cases "n < 10") (simp_all add: show_nat.simps [of n] digits_of.simps [of n])
qed

lemma digits_of_less: "d \<in> set (digits_of n) \<Longrightarrow> d < 10"
proof (induction n rule: digits_of.induct)
  case (1 n)
  then show ?case
    by (cases "n < 10") (auto simp: digits_of.simps [of n])
qed

lemma digits_of_value: "digits_value 10 (digits_of n) = n"
proof (induction n rule: digits_of.induct)
  case (1 n)
  then show ?case
    by (cases "n < 10")
      (simp_all add: digits_of.simps [of n] digits_value_snoc, simp add: digits_value_def)
qed

lemma digits_of_not_Nil [simp]: "digits_of n \<noteq> []"
  by (subst digits_of.simps) simp

lemma digits_of_hd: "10 \<le> n \<Longrightarrow> hd (digits_of n) \<noteq> 0"
proof (induction n rule: digits_of.induct)
  case (1 n)
  show ?case
  proof (cases "n div 10 < 10")
    case True
    with "1.prems" show ?thesis
      by (simp add: digits_of.simps [of n] digits_of.simps [of "n div 10"])
  next
    case False
    with "1" show ?thesis by (simp add: digits_of.simps [of n])
  qed
qed

lemma digits_of_length_1: "1 < length (digits_of n) \<Longrightarrow> 10 \<le> n"
  by (cases "n < 10") (simp_all add: digits_of.simps [of n])

lemma digits_of_length_octet: "n < 1000 \<Longrightarrow> length (digits_of n) \<le> 3"
  by (simp add: digits_of.simps [of n] digits_of.simps [of "n div 10"]
      digits_of.simps [of "n div 10 div 10"])

lemma take_digits_map:
  "(\<And>d. d \<in> set ds \<Longrightarrow> d < 10) \<Longrightarrow> digits_end s \<Longrightarrow>
   take_digits 10 (List.map digit_char ds @ s) = (ds, s)"
  by (induction ds) (simp_all add: take_digits_end)

lemma digit_char_0: "d < 10 \<Longrightarrow> digit_char d = CHR ''0'' \<longleftrightarrow> d = 0"
proof
  assume "d < 10" "digit_char d = CHR ''0''"
  then have "Some d = to_digit CHR ''0''" using to_digit_digit_char [of d] by simp
  then show "d = 0" by (simp add: to_digit_def)
next
  have zero: "digit_char 0 = CHR ''0''" by code_simp
  assume "d = 0"
  with zero show "digit_char d = CHR ''0''" by simp
qed

lemma read_number_show_nat:
  assumes "n \<le> limit" "digits_end s"
    "\<And>k. max_digits = Some k \<Longrightarrow> length (digits_of n) \<le> k"
  shows "read_number 10 max_digits limit zp (show_nat n @ s) = Some (n, s)"
proof -
  have "take_digits 10 (show_nat n @ s) = (digits_of n, s)"
    using assms(2) digits_of_less by (simp add: show_nat_digits_of take_digits_map)
  moreover have "\<not> (hd (show_nat n @ s) = CHR ''0'' \<and> 1 < length (digits_of n))"
    using digits_of_hd [of n] digits_of_length_1 [of n] digits_of_less [of "hd (digits_of n)" n]
    by (auto simp: show_nat_digits_of hd_map digit_char_0)
  ultimately show ?thesis
    using assms(1,3) by (auto simp: read_number_def digits_of_value split: option.splits)
qed

lemma read_octet_show_u8:
  "digits_end s \<Longrightarrow> read_octet (show_u8 b @ s) = Some (unat b, s)"
  unfolding read_octet_def show_u8_def
  using unat_u8_le [of b] digits_of_length_octet [of "unat b"]
  by (intro read_number_show_nat) auto

lemma read_ipv4_addr_show_v4:
  "digits_end s \<Longrightarrow> read_ipv4_addr (show_v4 a b c d @ s) = Some (V4 a b c d, s)"
  by (simp add: read_ipv4_addr_def show_v4_def read_separator_def read_octet_show_u8)

lemma read_port_show_u16: "digits_end s \<Longrightarrow> read_port (CHR '':'' # show_u16 p @ s) = Some (p, s)"
  using read_number_show_nat [of "unat p" 65535 s None True] unat_u16_le [of p]
  by (simp add: read_port_def show_u16_def)

lemma parse_show_socket_addr_v4:
  "parse_socket_addr (show_socket_addr (SocketAddr (V4 a b c d) port 0))
     = Some (SocketAddr (V4 a b c d) port 0)"
  using read_port_show_u16 [of "[]" port]
  by (simp add: parse_socket_addr_def read_socket_addr_v4_def read_ipv4_addr_show_v4)

end
