(* ===== verification/Errors.thy ===== *)
theory Errors
  imports Net_Addr
begin

text \<open>
  \<open>src/errors.rs\<close>: the error enum of the proxy with its rendered messages, the
  reclassification of bind failures and the conversion from the DNS resolver's error. Errors of
  other crates are opaque to the source, which only renders them: they are carried as their text.
\<close>

section \<open>Errors from outside\<close>

text \<open>\<open>std::io::ErrorKind\<close>.\<close>

datatype error_kind =
    NotFound | PermissionDenied | ConnectionRefused | ConnectionReset | HostUnreachable
  | NetworkUnreachable | ConnectionAborted | NotConnected | AddrInUse | AddrNotAvailable
  | NetworkDown | BrokenPipe | AlreadyExists | WouldBlock | InvalidInput | InvalidData | TimedOut
  | WriteZero | StorageFull | ResourceBusy | Interrupted | Unsupported | UnexpectedEof
  | OutOfMemory | Other | Uncategorized

text \<open>\<open>std::io::Error\<close>: its \<open>kind()\<close> and the text it displays.\<close>

datatype io_error = Io_Error (io_kind: error_kind) (io_text: string)

text \<open>\<open>serde_json::Error\<close> and \<open>tokio::sync::AcquireError\<close>, known by their text only.\<close>

datatype json_error = Json_Error (json_text: string)

datatype acquire_error = Acquire_Error (acquire_text: string)

section \<open>The error enum\<close>

datatype proxy_error =
    BackendNotFound string
  | ConfigIngestError string
  | BadAddressError string string
  | BindError string io_error
  | TargetResolutionError u16 string
  | ConnectionError u16 string
  | ProxyStateError string
  | IoError io_error
  | JsonError json_error
  | TaskCancellation string
  | QueueAcquireError acquire_error
  | DnsTransientError string
  | DnsNxError string

text \<open>\<open>Display\<close>, derived from the \<open>#[error(...)]\<close> attributes.\<close>

fun show_proxy_error :: "proxy_error \<Rightarrow> string" where
  "show_proxy_error (BackendNotFound name) = ''No target found for backend named '' @ name"
| "show_proxy_error (ConfigIngestError message) = ''Error ingesting proxy config: '' @ message"
| "show_proxy_error (BadAddressError addr message) =
     ''Address '' @ addr @ '' is invalid: '' @ message"
| "show_proxy_error (BindError addr source) = ''Failed to bind '' @ addr"
| "show_proxy_error (TargetResolutionError port message) =
     ''Error resolving targets for '' @ show_u16 port @ '': '' @ message"
| "show_proxy_error (ConnectionError port message) =
     ''Connection error for port '' @ show_u16 port @ '': '' @ message"
| "show_proxy_error (ProxyStateError message) = ''Error in Proxy state: '' @ message"
| "show_proxy_error (IoError e) = ''Network I/O error '' @ io_text e"
| "show_proxy_error (JsonError e) = ''Json parse error '' @ json_text e"
| "show_proxy_error (TaskCancellation message) = ''A task was cancelled: '' @ message"
| "show_proxy_error (QueueAcquireError e) =
     ''Error acquiring semaphore permit '' @ acquire_text e"
| "show_proxy_error (DnsTransientError message) = ''Transient DNS error: '' @ message"
| "show_proxy_error (DnsNxError message) = ''Permanent DNS error: '' @ message"

section \<open>Reclassifications\<close>

fun maybe_into_bind_error :: "proxy_error \<Rightarrow> socket_addr \<Rightarrow> proxy_error" where
  "maybe_into_bind_error (IoError source) addr = BindError (show_socket_addr addr) source"
| "maybe_into_bind_error other addr = other"

text \<open>
  \<open>From<NetError>\<close>. The resolver crate's error type is a parameter: what the source asks of it
  is whether the name does not exist, whether it has no records, and its text.
\<close>

record 'n net_error_ops =
  is_nx_domain :: "'n \<Rightarrow> bool"
  is_no_records_found :: "'n \<Rightarrow> bool"
  net_error_text :: "'n \<Rightarrow> string"

definition from_net_error :: "'n net_error_ops \<Rightarrow> 'n \<Rightarrow> proxy_error" where
  "from_net_error N e =
     (if is_nx_domain N e \<or> is_no_records_found N e
      then DnsNxError (net_error_text N e)
      else DnsTransientError (net_error_text N e))"

text \<open>The two errors after which the balancer moves on to the next target.\<close>

fun is_dns_error :: "proxy_error \<Rightarrow> bool" where
  "is_dns_error (DnsNxError _) = True"
| "is_dns_error (DnsTransientError _) = True"
| "is_dns_error _ = False"

lemma from_net_error_is_dns [simp]: "is_dns_error (from_net_error N e)"
  by (simp add: from_net_error_def)

lemma maybe_into_bind_error_not_io: "maybe_into_bind_error e addr \<noteq> IoError x"
  by (cases e) auto

lemma maybe_into_bind_error_idem:
  "maybe_into_bind_error (maybe_into_bind_error e addr) addr' = maybe_into_bind_error e addr"
  by (cases e) auto

lemma maybe_into_bind_error_cases:
  "(\<exists>io. e = IoError io \<and> maybe_into_bind_error e addr = BindError (show_socket_addr addr) io)
   \<or> (\<forall>io. e \<noteq> IoError io) \<and> maybe_into_bind_error e addr = e"
  by (cases e) auto

end
