(* ===== verification/Config.thy ===== *)
theory Config
  imports Errors
begin

text \<open>
  \<open>src/config.rs\<close>: the shape of the JSON configuration and its loading. Reading the file and
  parsing JSON are parameters (the operating system and \<open>serde_json\<close>); the model keeps their
  order and the conversion of their errors.
\<close>

record app =
  app_name :: string
  app_ports :: "u16 list"
  app_targets :: "string list"

record raw_config =
  apps :: "app list"

definition load_from_file ::
  "(string \<Rightarrow> io_error + string) \<Rightarrow> (string \<Rightarrow> json_error + raw_config) \<Rightarrow> string
   \<Rightarrow> proxy_error + raw_config" where
  "load_from_file read_to_string from_str path =
     (case read_to_string path of
        Err e \<Rightarrow> Err (IoError e)
      | Ok content \<Rightarrow>
          (case from_str content of
             Err e \<Rightarrow> Err (JsonError e)
           | Ok config \<Rightarrow> Ok config))"

lemma load_from_file_Ok:
  "load_from_file rd js path = Ok cfg \<longleftrightarrow> (\<exists>content. rd path = Ok content \<and> js content = Ok cfg)"
  by (auto simp: load_from_file_def split: sum.splits)

end
