(* ===== verification/Proxy_State.thy ===== *)
theory Proxy_State
  imports Config "HOL-Library.Option_ord"
begin

text \<open>
  \<open>src/state.rs\<close>: the routing table built from the configuration (\<open>ProxyConfig\<close>), and the
  status of every backend (\<open>BackendStatus\<close>, \<open>TargetState\<close>). A status lives in an
  \<open>arc_swap::ArcSwap\<close> cell, a parameter here: the operations the source calls on a cell are the
  record \<open>arc_swap_ops\<close>, and what it relies on is the locale \<open>arc_swap\<close>.
\<close>

section \<open>Backend status\<close>

datatype backend_status = Alive (cool_until: "instant option") | Drain

text \<open>
  The derived order: \<open>Alive\<close> before \<open>Drain\<close>, then the field, with \<open>None\<close> before every
  instant.
\<close>

instantiation backend_status :: linorder
begin

definition less_eq_backend_status :: "backend_status \<Rightarrow> backend_status \<Rightarrow> bool" where
  "less_eq_backend_status a b \<longleftrightarrow>
     (case a of
        Alive x \<Rightarrow> (case b of Alive y \<Rightarrow> x \<le> y | Drain \<Rightarrow> True)
      | Drain \<Rightarrow> (case b of Alive y \<Rightarrow> False | Drain \<Rightarrow> True))"

definition less_backend_status :: "backend_status \<Rightarrow> backend_status \<Rightarrow> bool" where
  "less_backend_status a b \<longleftrightarrow> a \<le> b \<and> \<not> b \<le> a"

instance
  by standard
    (auto simp: less_backend_status_def less_eq_backend_status_def split: backend_status.splits)

end

section \<open>The routing table\<close>

record proxy_config =
  target_pools :: "string list list"
  port_to_pool :: "(u16 \<times> nat) list"

definition get_pool :: "proxy_config \<Rightarrow> u16 \<Rightarrow> string list option" where
  "get_pool cfg port =
     (case map_of (port_to_pool cfg) port of
        None \<Rightarrow> None
      | Some idx \<Rightarrow>
          if idx < length (target_pools cfg) then Some (target_pools cfg ! idx) else None)"

definition ports :: "proxy_config \<Rightarrow> u16 list" where
  "ports cfg = map fst (port_to_pool cfg)"

definition duplicate_port :: "u16 \<Rightarrow> proxy_error" where
  "duplicate_port port = ConfigIngestError (''Duplicate port definition '' @ show_u16 port)"

text \<open>
  \<open>TryFrom<&RawConfig> for ProxyConfig\<close>: the inner loop over the ports of one application,
  which becomes pool number \<open>idx\<close>, and the outer loop over the applications.
\<close>

fun ingest_ports ::
  "nat \<Rightarrow> u16 list \<Rightarrow> (u16 \<times> nat) list \<Rightarrow> proxy_error + (u16 \<times> nat) list" where
  "ingest_ports idx [] m = Ok m"
| "ingest_ports idx (port # ps) m =
     (case map_of m port of
        Some _ \<Rightarrow> Err (duplicate_port port)
      | None \<Rightarrow> ingest_ports idx ps (btree_insert port idx m))"

fun ingest_apps ::
  "app list \<Rightarrow> string list list \<Rightarrow> (u16 \<times> nat) list \<Rightarrow> proxy_error + proxy_config" where
  "ingest_apps [] pools m = Ok \<lparr>target_pools = pools, port_to_pool = m\<rparr>"
| "ingest_apps (a # as) pools m =
     (let pools' = pools @ [app_targets a] in
      case ingest_ports (length pools' - 1) (app_ports a) m of
        Err e \<Rightarrow> Err e
      | Ok m' \<Rightarrow> ingest_apps as pools' m')"

definition proxy_config_try_from :: "raw_config \<Rightarrow> proxy_error + proxy_config" where
  "proxy_config_try_from raw = ingest_apps (apps raw) [] []"

section \<open>Backend states\<close>

record 'c arc_swap_ops =
  from_pointee :: "backend_status \<Rightarrow> 'c"
  load :: "'c \<Rightarrow> backend_status"
  store :: "backend_status \<Rightarrow> 'c \<Rightarrow> 'c"

record 'c target_state =
  target_status :: "string \<rightharpoonup> 'c"

definition ts_get_target_status ::
  "'c arc_swap_ops \<Rightarrow> 'c target_state \<Rightarrow> string \<Rightarrow> proxy_error + backend_status" where
  "ts_get_target_status A ts target =
     (case target_status ts target of
        None \<Rightarrow> Err (BackendNotFound target)
      | Some cell \<Rightarrow> Ok (load A cell))"

definition ts_update_target_status ::
  "'c arc_swap_ops \<Rightarrow> string \<Rightarrow> backend_status \<Rightarrow> 'c target_state
   \<Rightarrow> (proxy_error + unit) \<times> 'c target_state" where
  "ts_update_target_status A target status ts =
     (case target_status ts target of
        None \<Rightarrow> (Err (BackendNotFound target), ts)
      | Some cell \<Rightarrow>
          (Ok (), ts\<lparr>target_status := (target_status ts)(target \<mapsto> store A status cell)\<rparr>))"

text \<open>\<open>TryFrom<&RawConfig> for TargetState\<close>: every target of every application, up.\<close>

fun insert_targets ::
  "'c arc_swap_ops \<Rightarrow> string list \<Rightarrow> (string \<rightharpoonup> 'c) \<Rightarrow> (string \<rightharpoonup> 'c)" where
  "insert_targets A [] m = m"
| "insert_targets A (t # ts) m = insert_targets A ts (m(t \<mapsto> from_pointee A (Alive None)))"

fun insert_app_targets ::
  "'c arc_swap_ops \<Rightarrow> app list \<Rightarrow> (string \<rightharpoonup> 'c) \<Rightarrow> (string \<rightharpoonup> 'c)" where
  "insert_app_targets A [] m = m"
| "insert_app_targets A (a # as) m = insert_app_targets A as (insert_targets A (app_targets a) m)"

definition target_state_try_from ::
  "'c arc_swap_ops \<Rightarrow> raw_config \<Rightarrow> proxy_error + 'c target_state" where
  "target_state_try_from A raw =
     Ok \<lparr>target_status = insert_app_targets A (apps raw) Map.empty\<rparr>"

section \<open>The routing table is what the configuration says\<close>

text \<open>
  The first port of a list that repeats one of the ports seen before it: the reference for the
  duplicate check.
\<close>

fun first_dup :: "u16 set \<Rightarrow> u16 list \<Rightarrow> u16 option" where
  "first_dup seen [] = None"
| "first_dup seen (p # ps) = (if p \<in> seen then Some p else first_dup (insert p seen) ps)"

definition configured_ports :: "raw_config \<Rightarrow> u16 list" where
  "configured_ports raw = concat (map app_ports (apps raw))"

lemma first_dup_None_iff: "first_dup seen ps = None \<longleftrightarrow> distinct ps \<and> set ps \<inter> seen = {}"
  by (induction ps arbitrary: seen) auto

lemma first_dup_SomeD:
  "first_dup seen ps = Some p \<Longrightarrow>
   \<exists>xs ys. ps = xs @ p # ys \<and> p \<in> seen \<union> set xs \<and> distinct xs \<and> set xs \<inter> seen = {}"
proof (induction ps arbitrary: seen)
  case Nil
  then show ?case by simp
next
  case (Cons q ps)
  show ?case
  proof (cases "q \<in> seen")
    case True
    with Cons.prems show ?thesis by (intro exI [of _ "[]"] exI [of _ ps]) auto
  next
    case False
    with Cons.prems Cons.IH [of "insert q seen"] obtain xs ys
      where "ps = xs @ p # ys" "p \<in> insert q seen \<union> set xs" "distinct xs"
        "set xs \<inter> insert q seen = {}" by auto
    with False show ?thesis by (intro exI [of _ "q # xs"] exI [of _ ys]) auto
  qed
qed

lemma first_dup_append:
  "first_dup seen (xs @ ys) =
     (case first_dup seen xs of Some p \<Rightarrow> Some p | None \<Rightarrow> first_dup (seen \<union> set xs) ys)"
  by (induction xs arbitrary: seen) (auto split: option.split)

text \<open>The table that the loop builds for one application.\<close>

definition insert_ports :: "nat \<Rightarrow> u16 list \<Rightarrow> (u16 \<times> nat) list \<Rightarrow> (u16 \<times> nat) list" where
  "insert_ports idx ps m = fold (\<lambda>p. btree_insert p idx) ps m"

lemma insert_ports_simps [simp]:
  "insert_ports idx [] m = m"
  "insert_ports idx (p # ps) m = insert_ports idx ps (btree_insert p idx m)"
  by (simp_all add: insert_ports_def)

lemma insert_ports_inv: "btree_inv m \<Longrightarrow> btree_inv (insert_ports idx ps m)"
  by (induction ps arbitrary: m) (auto simp: btree_insert_inv)

lemma insert_ports_keys: "fst ` set (insert_ports idx ps m) = set ps \<union> fst ` set m"
  by (induction ps arbitrary: m) (auto simp: set_btree_insert_keys)

lemma map_of_insert_ports:
  "btree_inv m \<Longrightarrow>
   map_of (insert_ports idx ps m) p = (if p \<in> set ps then Some idx else map_of m p)"
  by (induction ps arbitrary: m) (auto simp: btree_insert_inv map_of_btree_insert)

lemma map_of_None_keys: "map_of m p = None \<longleftrightarrow> p \<notin> fst ` set m"
  by (rule map_of_eq_None_iff)

lemma ingest_ports_eq:
  "ingest_ports idx ps m =
     (case first_dup (fst ` set m) ps of
        Some p \<Rightarrow> Err (duplicate_port p)
      | None \<Rightarrow> Ok (insert_ports idx ps m))"
proof (induction ps arbitrary: m)
  case Nil
  then show ?case by simp
next
  case (Cons p ps)
  then show ?case
    using map_of_None_keys [of m p]
    by (cases "map_of m p") (auto simp: set_btree_insert_keys split: option.splits)
qed

text \<open>
  The invariant of the outer loop over the applications done so far: one pool each, and every port
  mapped to the first application that lists it.
\<close>

definition pool_index :: "app list \<Rightarrow> u16 \<Rightarrow> nat" where
  "pool_index xs p = length (takeWhile (\<lambda>a. p \<notin> set (app_ports a)) xs)"

definition pool_of :: "app list \<Rightarrow> u16 \<Rightarrow> nat option" where
  "pool_of xs p =
     (if p \<in> set (concat (map app_ports xs)) then Some (pool_index xs p) else None)"

definition table_inv :: "app list \<Rightarrow> (u16 \<times> nat) list \<Rightarrow> bool" where
  "table_inv pre m \<longleftrightarrow>
     btree_inv m \<and> fst ` set m = set (concat (map app_ports pre)) \<and>
     (\<forall>p. map_of m p = pool_of pre p)"

lemma pool_of_snoc:
  "pool_of (rest @ [a]) p =
     (case pool_of rest p of
        Some i \<Rightarrow> Some i
      | None \<Rightarrow> if p \<in> set (app_ports a) then Some (length rest) else None)"
  by (auto simp: pool_of_def pool_index_def takeWhile_append1 takeWhile_append2)

lemma table_inv_step:
  assumes "table_inv pre m" "set (app_ports a) \<inter> fst ` set m = {}"
  shows "table_inv (pre @ [a]) (insert_ports (length pre) (app_ports a) m)"
proof -
  have "map_of (insert_ports (length pre) (app_ports a) m) p = pool_of (pre @ [a]) p" for p
    using assms map_of_None_keys [of m p]
    by (auto simp: table_inv_def map_of_insert_ports pool_of_snoc split: option.splits)
  with assms show ?thesis
    by (auto simp: table_inv_def insert_ports_inv insert_ports_keys)
qed

lemma ingest_apps_eq:
  assumes "table_inv pre m" "pools = map app_targets pre"
  shows "case first_dup (fst ` set m) (concat (map app_ports rest)) of
      Some p \<Rightarrow> ingest_apps rest pools m = Err (duplicate_port p)
    | None \<Rightarrow> \<exists>m'. ingest_apps rest pools m =
          Ok \<lparr>target_pools = map app_targets (pre @ rest), port_to_pool = m'\<rparr>
        \<and> table_inv (pre @ rest) m'"
  using assms
proof (induction rest arbitrary: pre pools m)
  case Nil
  then show ?case by auto
next
  case (Cons a rest)
  show ?case
  proof (cases "first_dup (fst ` set m) (app_ports a)")
    case (Some p)
    with Cons.prems show ?thesis
      by (simp add: first_dup_append ingest_ports_eq)
  next
    case None
    then have "set (app_ports a) \<inter> fst ` set m = {}"
      by (simp add: first_dup_None_iff)
    with Cons.prems None show ?thesis
      using Cons.IH [of "pre @ [a]" "insert_ports (length pre) (app_ports a) m"
          "pools @ [app_targets a]"] table_inv_step [of "pre" m a]
      by (simp add: first_dup_append ingest_ports_eq insert_ports_keys Un_commute
          split: option.splits)
  qed
qed

lemma btree_contents:
  assumes "btree_inv m"
  shows "map (\<lambda>k. (k, the (map_of m k))) (map fst m) = m"
proof -
  have "distinct (map fst m)" using assms by (simp add: btree_inv_def strict_sorted_iff)
  then have "the (map_of m (fst x)) = snd x" if "x \<in> set m" for x
    using that map_of_is_SomeI [of m "fst x" "snd x"] by (metis option.sel prod.collapse)
  then show ?thesis by (simp add: map_idI)
qed

lemma btree_keys: "btree_inv m \<Longrightarrow> map fst m = sorted_list_of_set (fst ` set m)"
  using sorted_list_of_set.idem_if_sorted_distinct [of "map fst m"]
  by (simp add: btree_inv_def strict_sorted_iff)

lemma table_inv_contents:
  assumes "table_inv xs m" "distinct (concat (map app_ports xs))"
  shows "m = map (\<lambda>p. (p, pool_index xs p)) (sort (concat (map app_ports xs)))"
proof -
  let ?ps = "concat (map app_ports xs)"
  have "map fst m = sort ?ps"
    using assms btree_keys [of m] sorted_list_of_set_sort_remdups [of ?ps]
    by (simp add: table_inv_def distinct_remdups_id)
  moreover have "the (map_of m p) = pool_index xs p" if "p \<in> set ?ps" for p
    using assms that by (simp add: table_inv_def pool_of_def)
  ultimately have "map (\<lambda>k. (k, the (map_of m k))) (map fst m)
      = map (\<lambda>p. (p, pool_index xs p)) (sort ?ps)"
    by simp
  moreover have "btree_inv m" using assms by (simp add: table_inv_def)
  ultimately show ?thesis using btree_contents [of m] by simp
qed

text \<open>The two outcomes, the facts that the properties of the routing table share.\<close>

lemma proxy_config_dup:
  "first_dup {} (configured_ports raw) = Some p \<Longrightarrow>
   proxy_config_try_from raw = Err (duplicate_port p)"
  using ingest_apps_eq [of "[]" "[]" "[]" "apps raw"]
  by (simp add: proxy_config_try_from_def configured_ports_def table_inv_def pool_of_def)

lemma proxy_config_ok:
  assumes "first_dup {} (configured_ports raw) = None"
  obtains m where
    "proxy_config_try_from raw = Ok \<lparr>target_pools = map app_targets (apps raw), port_to_pool = m\<rparr>"
    "table_inv (apps raw) m"
  using assms ingest_apps_eq [of "[]" "[]" "[]" "apps raw"]
  by (auto simp: proxy_config_try_from_def configured_ports_def table_inv_def pool_of_def)

lemma proxy_config_OkD:
  assumes "proxy_config_try_from raw = Ok cfg"
  shows "distinct (configured_ports raw)" "target_pools cfg = map app_targets (apps raw)"
    "table_inv (apps raw) (port_to_pool cfg)"
proof -
  have none: "first_dup {} (configured_ports raw) = None"
    using assms proxy_config_dup [of raw] by (cases "first_dup {} (configured_ports raw)") auto
  then show "distinct (configured_ports raw)" by (simp add: first_dup_None_iff)
  from none obtain m where "proxy_config_try_from raw =
      Ok \<lparr>target_pools = map app_targets (apps raw), port_to_pool = m\<rparr>" "table_inv (apps raw) m"
    by (rule proxy_config_ok)
  with assms show "target_pools cfg = map app_targets (apps raw)"
    "table_inv (apps raw) (port_to_pool cfg)" by auto
qed

lemma pool_index_nth:
  assumes "p \<in> set (concat (map app_ports xs))"
  shows "pool_index xs p < length xs"
    "find (\<lambda>a. p \<in> set (app_ports a)) xs = Some (xs ! pool_index xs p)"
  using assms by (induction xs) (auto simp: pool_index_def)

lemma find_app_None:
  "p \<notin> set (concat (map app_ports xs)) \<Longrightarrow> find (\<lambda>a. p \<in> set (app_ports a)) xs = None"
  by (auto simp: find_None_iff)

lemma get_pool_ok:
  assumes "proxy_config_try_from raw = Ok cfg"
  shows "get_pool cfg p = map_option app_targets (find (\<lambda>a. p \<in> set (app_ports a)) (apps raw))"
proof (cases "p \<in> set (concat (map app_ports (apps raw)))")
  case True
  then show ?thesis
    using proxy_config_OkD [OF assms] pool_index_nth [OF True]
    by (auto simp: get_pool_def table_inv_def pool_of_def)
next
  case False
  then show ?thesis
    using proxy_config_OkD [OF assms] find_app_None [OF False]
    by (auto simp: get_pool_def table_inv_def pool_of_def)
qed

lemma ports_ok:
  assumes "proxy_config_try_from raw = Ok cfg"
  shows "ports cfg = sort (configured_ports raw)"
proof -
  have "map fst (port_to_pool cfg) = map fst
      (map (\<lambda>p. (p, pool_index (apps raw) p)) (sort (configured_ports raw)))"
    using table_inv_contents [of "apps raw" "port_to_pool cfg"] proxy_config_OkD [OF assms]
    by (simp add: configured_ports_def)
  also have "\<dots> = sort (configured_ports raw)" by (simp add: comp_def)
  finally show ?thesis by (simp add: ports_def)
qed

lemma ports_get_pool:
  assumes "proxy_config_try_from raw = Ok cfg"
  shows "p \<in> set (ports cfg) \<longleftrightarrow> get_pool cfg p \<noteq> None"
  using ports_ok [OF assms] get_pool_ok [OF assms]
  by (auto simp: configured_ports_def find_None_iff)

text \<open>
  C33: building the routing table fails exactly on the first port that repeats an earlier one, and
  otherwise holds one pool per application, in order, and every port in ascending order with the
  number of the one application that lists it.
\<close>

theorem proxy_config_try_from_eq:
  "proxy_config_try_from raw =
     (case first_dup {} (configured_ports raw) of
        Some p \<Rightarrow> Err (duplicate_port p)
      | None \<Rightarrow>
          Ok \<lparr>target_pools = map app_targets (apps raw),
              port_to_pool =
                map (\<lambda>p. (p, pool_index (apps raw) p)) (sort (configured_ports raw))\<rparr>)"
proof (cases "first_dup {} (configured_ports raw)")
  case None
  then obtain m where m: "proxy_config_try_from raw =
      Ok \<lparr>target_pools = map app_targets (apps raw), port_to_pool = m\<rparr>" "table_inv (apps raw) m"
    by (rule proxy_config_ok)
  have "distinct (configured_ports raw)" using None by (simp add: first_dup_None_iff)
  then have "m = map (\<lambda>p. (p, pool_index (apps raw) p)) (sort (configured_ports raw))"
    using table_inv_contents [of "apps raw" m] m(2) unfolding configured_ports_def by blast
  with m(1) None show ?thesis by (simp only: option.case)
next
  case (Some p)
  then show ?thesis by (simp add: proxy_config_dup)
qed

text \<open>
  In an accepted configuration the pool of a port is the target list of the application that
  lists the port, and a port no application lists has no pool.
\<close>

theorem get_pool_spec:
  assumes "proxy_config_try_from raw = Ok cfg"
  shows "get_pool cfg p =
           map_option app_targets (find (\<lambda>a. p \<in> set (app_ports a)) (apps raw))"
  using assms by (rule get_pool_ok)

text \<open>A configuration with two applications that share a backend, used by the witnesses.\<close>

definition sample_raw :: raw_config where
  "sample_raw =
     \<lparr>apps = [\<lparr>app_name = ''a'', app_ports = [5002, 5001], app_targets = [''b1:1'', ''b2:2'']\<rparr>,
              \<lparr>app_name = ''b'', app_ports = [5003], app_targets = [''b2:2'']\<rparr>]\<rparr>"

definition sample_config :: proxy_config where
  "sample_config =
     \<lparr>target_pools = [[''b1:1'', ''b2:2''], [''b2:2'']],
      port_to_pool = [(5001, 0), (5002, 0), (5003, 1)]\<rparr>"

lemma sample_config_ok: "proxy_config_try_from sample_raw = Ok sample_config"
  by (simp add: proxy_config_try_from_def sample_raw_def sample_config_def)

theorem get_pool_spec_witness:
  "get_pool sample_config 5001 = Some [''b1:1'', ''b2:2''] \<and>
   get_pool sample_config 5003 = Some [''b2:2''] \<and> get_pool sample_config 80 = None"
  using get_pool_spec [OF sample_config_ok, of 5001] get_pool_spec [OF sample_config_ok, of 5003]
    get_pool_spec [OF sample_config_ok, of 80]
  by (simp add: sample_raw_def)

text \<open>
  The configuration is rejected exactly when some port is listed twice, within one application
  or across two, and the message names the first port that repeats an earlier one.
\<close>

theorem proxy_config_rejects_duplicates:
  "proxy_config_try_from raw = Err e \<longleftrightarrow>
     (\<exists>p xs ys. configured_ports raw = xs @ p # ys \<and> distinct xs \<and> p \<in> set xs
              \<and> e = ConfigIngestError (''Duplicate port definition '' @ show_u16 p))"
proof
  assume err: "proxy_config_try_from raw = Err e"
  then obtain p where p: "first_dup {} (configured_ports raw) = Some p"
    by (metis option.exhaust proxy_config_ok sum.distinct(1))
  then show "\<exists>p xs ys. configured_ports raw = xs @ p # ys \<and> distinct xs \<and> p \<in> set xs
      \<and> e = ConfigIngestError (''Duplicate port definition '' @ show_u16 p)"
    using first_dup_SomeD [OF p] proxy_config_dup [OF p] err by (auto simp: duplicate_port_def)
next
  assume "\<exists>p xs ys. configured_ports raw = xs @ p # ys \<and> distinct xs \<and> p \<in> set xs
      \<and> e = ConfigIngestError (''Duplicate port definition '' @ show_u16 p)"
  then obtain p xs ys where "configured_ports raw = xs @ p # ys" "distinct xs" "p \<in> set xs"
    "e = duplicate_port p" by (auto simp: duplicate_port_def)
  then have "first_dup {} (configured_ports raw) = Some p" "e = duplicate_port p"
    using first_dup_None_iff [of "{}" xs] by (auto simp: first_dup_append)
  then show "proxy_config_try_from raw = Err e" by (simp add: proxy_config_dup)
qed

section \<open>Backend states behave like a table of cells\<close>

text \<open>What the source relies on of a cell of \<open>arc_swap\<close>: a load gives what was stored last.\<close>

locale arc_swap =
  fixes A :: "'c arc_swap_ops"
  assumes load_from_pointee: "load A (from_pointee A status) = status"
    and load_store: "load A (store A status cell) = status"
begin

lemma insert_targets_status:
  "map_option (load A) (insert_targets A ts m t) =
     (if t \<in> set ts then Some (Alive None) else map_option (load A) (m t))"
  by (induction ts arbitrary: m) (auto simp: load_from_pointee)

lemma insert_app_targets_status:
  "map_option (load A) (insert_app_targets A xs m t) =
     (if t \<in> set (concat (map app_targets xs)) then Some (Alive None)
      else map_option (load A) (m t))"
  by (induction xs arbitrary: m) (auto simp: insert_targets_status)

lemma initial_status:
  assumes "target_state_try_from A raw = Ok ts"
  shows "ts_get_target_status A ts t =
     (if t \<in> set (concat (map app_targets (apps raw))) then Ok (Alive None)
      else Err (BackendNotFound t))"
proof -
  have "map_option (load A) (target_status ts t) =
      (if t \<in> set (concat (map app_targets (apps raw))) then Some (Alive None) else None)"
    using assms insert_app_targets_status [of "apps raw" Map.empty t]
    by (cases "t \<in> set (concat (map app_targets (apps raw)))") (auto simp: target_state_try_from_def)
  then show ?thesis
    by (auto simp: ts_get_target_status_def split: option.splits if_splits)
qed

end

text \<open>
  The contract of a store of backend statuses, as its client the cooldown handler uses it: an
  update of a known backend is what the next read returns, an unknown backend is an error that
  names it and changes nothing, and no other backend is touched.
\<close>

locale status_store =
  fixes get :: "'s \<Rightarrow> string \<Rightarrow> proxy_error + backend_status"
    and update :: "string \<Rightarrow> backend_status \<Rightarrow> 's \<Rightarrow> (proxy_error + unit) \<times> 's"
  assumes get_err: "get s t = Err e \<Longrightarrow> e = BackendNotFound t"
    and update_result: "fst (update t status s) = map_sum id (\<lambda>_. ()) (get s t)"
    and update_get:
      "get (snd (update t status s)) t' =
         (if t' = t \<and> \<not> is_err (get s t) then Ok status else get s t')"
    and update_err: "is_err (get s t) \<Longrightarrow> snd (update t status s) = s"
begin

lemma update_known:
  assumes "get s t = Ok old"
  shows "fst (update t status s) = Ok ()" "get (snd (update t status s)) t = Ok status"
  using assms by (simp_all add: update_result update_get)

lemma update_frame: "t' \<noteq> t \<Longrightarrow> get (snd (update t status s)) t' = get s t'"
  by (simp add: update_get)

lemma update_unknown: "get s t = Err e \<Longrightarrow> update t status s = (Err (BackendNotFound t), s)"
  using get_err [of s t e] update_result [of t status s] update_err [of s t status]
  by (cases "update t status s") simp

lemma known_preserved: "is_err (get (snd (update t status s)) t') = is_err (get s t')"
  by (simp add: update_get)

end

sublocale arc_swap \<subseteq> target_state: status_store "ts_get_target_status A" "ts_update_target_status A"
  by unfold_locales
    (auto simp: ts_get_target_status_def ts_update_target_status_def load_store split: option.splits)

text \<open>
  A memory cell that holds the status itself: the sequential behaviour of an \<open>ArcSwap\<close>, at
  which the contract is inhabited.
\<close>

definition plain_cell :: "backend_status arc_swap_ops" where
  "plain_cell = \<lparr>from_pointee = (\<lambda>status. status), load = (\<lambda>cell. cell), store = (\<lambda>status cell. status)\<rparr>"

interpretation plain: arc_swap plain_cell
  by unfold_locales (simp_all add: plain_cell_def)

lemma pool_target_status:
  assumes "arc_swap A" "proxy_config_try_from raw = Ok cfg" "target_state_try_from A raw = Ok ts"
    and "get_pool cfg port = Some pool" "t \<in> set pool"
  shows "ts_get_target_status A ts t = Ok (Alive None)"
proof -
  from assms(2,4) obtain a where "find (\<lambda>a. port \<in> set (app_ports a)) (apps raw) = Some a"
    "pool = app_targets a" by (auto simp: get_pool_ok)
  moreover from this(1) have "a \<in> set (apps raw)" by (auto simp: find_Some_iff)
  ultimately have "t \<in> set (concat (map app_targets (apps raw)))"
    using assms(5) by auto
  with arc_swap.initial_status [OF assms(1,3), of t] show ?thesis by simp
qed

end
