(* ===== verification/Cooldown.thy ===== *)
theory Cooldown
  imports Proxy_State
begin

text \<open>
  \<open>src/balancer/simplecooldownhandler.rs\<close> and the \<open>CooldownHandler\<close> trait of
  \<open>src/balancer/traits.rs\<close>. A reading of the clock (\<open>Instant::now()\<close>) is an argument, one per
  call of the source; the trait's promises are the locale \<open>cooldown_handler\<close>, which the balancer's
  lemmas use and \<open>SimpleCooldownHandler\<close> provides. \<open>Cooldown_Race\<close> takes the read and the write of
  a report apart and interleaves them with a drain.
\<close>

section \<open>The handler\<close>

datatype connect_result = Success | Failure

record 'c simple_cooldown_handler =
  targets :: "'c target_state"

definition COOLDOWN :: duration where
  "COOLDOWN = from_secs 120"

definition simple_cooldown_handler_new :: "'c target_state \<Rightarrow> 'c simple_cooldown_handler" where
  "simple_cooldown_handler_new ts = \<lparr>targets = ts\<rparr>"

definition handler_get_target_status ::
  "'c arc_swap_ops \<Rightarrow> 'c simple_cooldown_handler \<Rightarrow> string \<Rightarrow> proxy_error + backend_status" where
  "handler_get_target_status A h target =
     (case ts_get_target_status A (targets h) target of
        Err e \<Rightarrow> Err e
      | Ok status \<Rightarrow> Ok status)"

text \<open>\<open>TargetState::update_target_status\<close> on the handler's table.\<close>

definition handler_update ::
  "'c arc_swap_ops \<Rightarrow> string \<Rightarrow> backend_status \<Rightarrow> 'c simple_cooldown_handler
   \<Rightarrow> (proxy_error + unit) \<times> 'c simple_cooldown_handler" where
  "handler_update A target status h =
     (let (res, ts) = ts_update_target_status A target status (targets h)
      in (res, h\<lparr>targets := ts\<rparr>))"

text \<open>
  \<open>report_connection_attempt\<close>: \<open>now\<close> is the first reading of the clock, \<open>now'\<close> the second one,
  which only a failure takes. (Rust's \<open>Instant\<close> addition panics beyond the range of the clock,
  centuries away; instants are unbounded here.)
\<close>

definition handler_report_connection_attempt ::
  "'c arc_swap_ops \<Rightarrow> instant \<Rightarrow> instant \<Rightarrow> string \<Rightarrow> connect_result
   \<Rightarrow> 'c simple_cooldown_handler \<Rightarrow> (proxy_error + unit) \<times> 'c simple_cooldown_handler" where
  "handler_report_connection_attempt A now now' target result h =
     (case handler_get_target_status A h target of
        Err e \<Rightarrow> (Err e, h)
      | Ok Drain \<Rightarrow> (Ok (), h)
      | Ok (Alive cool) \<Rightarrow>
          if result = Failure then
            (case handler_update A target (Alive (Some (now' + COOLDOWN))) h of
               (Err e, h') \<Rightarrow> (Err e, h')
             | (Ok _, h') \<Rightarrow> (Ok (), h'))
          else
            (case cool of
               None \<Rightarrow> (Ok (), h)
             | Some until \<Rightarrow>
                 if now < until then
                   (case handler_update A target (Alive None) h of
                      (Err e, h') \<Rightarrow> (Err e, h')
                    | (Ok _, h') \<Rightarrow> (Ok (), h'))
                 else (Ok (), h)))"

definition handler_drain ::
  "'c arc_swap_ops \<Rightarrow> string \<Rightarrow> 'c simple_cooldown_handler
   \<Rightarrow> (proxy_error + unit) \<times> 'c simple_cooldown_handler" where
  "handler_drain A target h = handler_update A target Drain h"

section \<open>A report is a read, a decision and a write\<close>

text \<open>What a report writes after it has read \<open>status\<close>, if it writes at all.\<close>

fun report_decision ::
  "instant \<Rightarrow> instant \<Rightarrow> connect_result \<Rightarrow> backend_status \<Rightarrow> backend_status option" where
  "report_decision now now' result Drain = None"
| "report_decision now now' Failure (Alive cool) = Some (Alive (Some (now' + COOLDOWN)))"
| "report_decision now now' Success (Alive None) = None"
| "report_decision now now' Success (Alive (Some until)) =
     (if now < until then Some (Alive None) else None)"

definition after_report ::
  "instant \<Rightarrow> instant \<Rightarrow> connect_result \<Rightarrow> backend_status \<Rightarrow> backend_status" where
  "after_report now now' result status =
     (case report_decision now now' result status of None \<Rightarrow> status | Some status' \<Rightarrow> status')"

lemma after_report_simps [simp]:
  "after_report now now' result Drain = Drain"
  "after_report now now' Failure (Alive cool) = Alive (Some (now' + COOLDOWN))"
  "after_report now now' Success (Alive None) = Alive None"
  "after_report now now' Success (Alive (Some until)) =
     (if now < until then Alive None else Alive (Some until))"
  by (simp_all add: after_report_def)

section \<open>The trait's contract\<close>

text \<open>
  What the trait documents: a report only moves the cooldown of the backend it names, so an alive
  backend stays alive and a drained one drained; a drain sets \<open>Drain\<close>; both leave every other
  backend alone, and an unknown backend is an error that names it and changes nothing.
\<close>

locale cooldown_handler =
  fixes status_of :: "'h \<Rightarrow> string \<Rightarrow> proxy_error + backend_status"
    and report :: "instant \<Rightarrow> instant \<Rightarrow> string \<Rightarrow> connect_result \<Rightarrow> 'h \<Rightarrow> (proxy_error + unit) \<times> 'h"
    and drain :: "string \<Rightarrow> 'h \<Rightarrow> (proxy_error + unit) \<times> 'h"
  assumes status_err: "status_of h t = Err e \<Longrightarrow> e = BackendNotFound t"
    and report_result: "fst (report now now' t r h) = map_sum id (\<lambda>_. ()) (status_of h t)"
    and report_frame: "t' \<noteq> t \<Longrightarrow> status_of (snd (report now now' t r h)) t' = status_of h t'"
    and report_unknown: "is_err (status_of h t) \<Longrightarrow> snd (report now now' t r h) = h"
    and report_drained:
      "status_of h t = Ok Drain \<Longrightarrow> status_of (snd (report now now' t r h)) t = Ok Drain"
    and report_alive:
      "status_of h t = Ok (Alive cool) \<Longrightarrow>
       \<exists>cool'. status_of (snd (report now now' t r h)) t = Ok (Alive cool')"
    and drain_result: "fst (drain t h) = map_sum id (\<lambda>_. ()) (status_of h t)"
    and drain_status:
      "status_of (snd (drain t h)) t' =
         (if t' = t then map_sum id (\<lambda>_. Drain) (status_of h t) else status_of h t')"
begin

text \<open>A run of reports, each with its readings of the clock.\<close>

abbreviation run_reports :: "(instant \<times> instant \<times> string \<times> connect_result) list \<Rightarrow> 'h \<Rightarrow> 'h" where
  "run_reports rs h \<equiv> fold (\<lambda>(now, now', t, r) h. snd (report now now' t r h)) rs h"

lemma report_same_cases:
  "(\<exists>e. status_of h t = Err e \<and> status_of (snd (report now now' t r h)) t = Err e)
   \<or> status_of h t = Ok Drain \<and> status_of (snd (report now now' t r h)) t = Ok Drain
   \<or> (\<exists>c c'. status_of h t = Ok (Alive c) \<and> status_of (snd (report now now' t r h)) t = Ok (Alive c'))"
proof (cases "status_of h t")
  case (Inl e)
  then show ?thesis using report_unknown [of h t now now' r] by simp
next
  case (Inr s)
  then show ?thesis
    using report_drained [of h t now now' r] report_alive [of h t _ now now' r]
    by (cases s) simp_all
qed

lemma report_known:
  "is_err (status_of (snd (report now now' t r h)) t') = is_err (status_of h t')"
  using report_same_cases [of h t now now' r] report_frame [of t' t now now' r h]
  by (cases "t' = t") auto

lemma report_Drain_iff:
  "status_of (snd (report now now' t r h)) t' = Ok Drain \<longleftrightarrow> status_of h t' = Ok Drain"
  using report_same_cases [of h t now now' r] report_frame [of t' t now now' r h]
  by (cases "t' = t") auto

lemma run_reports_known: "is_err (status_of (run_reports rs h) t) = is_err (status_of h t)"
proof (induction rs arbitrary: h)
  case Nil
  show ?case by simp
next
  case (Cons x rs)
  obtain now now' t' r where x: "x = (now, now', t', r)" by (cases x)
  show ?case
    by (simp only: x fold.simps comp_apply prod.case Cons.IH report_known)
qed

lemma run_reports_Drain_iff:
  "status_of (run_reports rs h) t = Ok Drain \<longleftrightarrow> status_of h t = Ok Drain"
proof (induction rs arbitrary: h)
  case Nil
  show ?case by simp
next
  case (Cons x rs)
  obtain now now' t' r where x: "x = (now, now', t', r)" by (cases x)
  show ?case
    by (simp only: x fold.simps comp_apply prod.case Cons.IH report_Drain_iff)
qed

lemma drain_durable:
  assumes "status_of h t = Ok s"
  shows "status_of (run_reports rs (snd (drain t h))) t = Ok Drain"
  using assms by (simp add: run_reports_Drain_iff drain_status)

end

text \<open>The simple handler's rule for the backend of the report, on top of the trait's contract.\<close>

locale simple_cooldown = cooldown_handler +
  assumes report_status:
    "status_of (snd (report now now' t r h)) t = map_sum id (after_report now now' r) (status_of h t)"

section \<open>The simple handler keeps the contract\<close>

context arc_swap
begin

lemma handler_get [simp]:
  "handler_get_target_status A h = ts_get_target_status A (targets h)"
  by (auto simp: handler_get_target_status_def split: sum.splits)

lemma handler_update_result:
  "fst (handler_update A t s h) = map_sum id (\<lambda>_. ()) (ts_get_target_status A (targets h) t)"
  by (simp add: handler_update_def target_state.update_result split_def Let_def)

lemma handler_update_get:
  "ts_get_target_status A (targets (snd (handler_update A t s h))) t' =
     (if t' = t \<and> \<not> is_err (ts_get_target_status A (targets h) t) then Ok s
      else ts_get_target_status A (targets h) t')"
  by (simp add: handler_update_def target_state.update_get split_def Let_def)

text \<open>A report is: read, decide, write what was decided.\<close>

lemma report_is_read_decide_write:
  "handler_report_connection_attempt A now now' t r h =
     (case ts_get_target_status A (targets h) t of
        Err e \<Rightarrow> (Err e, h)
      | Ok status \<Rightarrow>
          (case report_decision now now' r status of
             None \<Rightarrow> (Ok (), h)
           | Some status' \<Rightarrow> (Ok (), snd (handler_update A t status' h))))"
proof (cases "ts_get_target_status A (targets h) t")
  case (Inl e)
  then show ?thesis by (simp add: handler_report_connection_attempt_def)
next
  case (Inr status)
  then have upd: "handler_update A t s h = (Ok (), snd (handler_update A t s h))" for s
    using handler_update_result [of t s h] by (metis map_sum.simps(2) prod.collapse)
  from Inr show ?thesis
    by (cases "(now, now', r, status)" rule: report_decision.cases)
      (auto simp: handler_report_connection_attempt_def split: prod.splits sum.splits;
       metis upd fst_conv snd_conv sum.distinct(1))+
qed

end

context arc_swap
begin

lemma report_status_eq:
  "ts_get_target_status A (targets (snd (handler_report_connection_attempt A now now' t r h))) t' =
     (if t' = t then map_sum id (after_report now now' r) (ts_get_target_status A (targets h) t)
      else ts_get_target_status A (targets h) t')"
  by (auto simp: report_is_read_decide_write handler_update_get after_report_def
      split: sum.splits option.splits)

lemma after_report_Drain_iff: "after_report now now' r s = Drain \<longleftrightarrow> s = Drain"
  by (cases "(now, now', r, s)" rule: report_decision.cases) auto

end

sublocale arc_swap \<subseteq> handler: simple_cooldown
  "handler_get_target_status A" "handler_report_connection_attempt A" "handler_drain A"
proof (unfold_locales, goal_cases)
  case (1 h t e)
  then show ?case using target_state.get_err by simp
next
  case (2 now now' t r h)
  then show ?case
    by (auto simp: report_is_read_decide_write split: sum.splits option.splits)
next
  case (4 h t now now' r)
  then show ?case
    by (auto simp: report_is_read_decide_write is_err_iff)
next
  case (6 h t cool now now' r)
  then show ?case
    using after_report_Drain_iff [of now now' r "Alive cool"]
    by (cases "after_report now now' r (Alive cool)") (auto simp: report_status_eq)
next
  case (7 t h)
  then show ?case by (simp add: handler_drain_def handler_update_result)
next
  case (8 t h t')
  then show ?case
    by (cases "ts_get_target_status A (targets h) t") (auto simp: handler_drain_def handler_update_get)
qed (auto simp: report_status_eq)

context arc_swap
begin

lemma handler_laws:
  "simple_cooldown (handler_get_target_status A) (handler_report_connection_attempt A)
     (handler_drain A)"
  by (rule handler.simple_cooldown_axioms)

end

interpretation plain_handler: simple_cooldown
  "handler_get_target_status plain_cell" "handler_report_connection_attempt plain_cell"
  "handler_drain plain_cell"
  by (rule plain.handler.simple_cooldown_axioms)

section \<open>Three states over two constructors\<close>

text \<open>
  The documented reading of a status at a moment: up, cooling until an instant that is still
  ahead, or drained; and what a report does to it.
\<close>

datatype health = Up | Cooling instant | Drained

fun health_at :: "instant \<Rightarrow> backend_status \<Rightarrow> health" where
  "health_at now (Alive None) = Up"
| "health_at now (Alive (Some until)) = (if now < until then Cooling until else Up)"
| "health_at now Drain = Drained"

fun health_report :: "instant \<Rightarrow> connect_result \<Rightarrow> health \<Rightarrow> health" where
  "health_report now r Drained = Drained"
| "health_report now Failure _ = Cooling (now + COOLDOWN)"
| "health_report now Success _ = Up"

lemma COOLDOWN_pos [simp]: "0 < COOLDOWN"
  by (simp add: COOLDOWN_def from_secs_def)

lemma health_after_report:
  assumes "now \<le> now'"
  shows "health_at now' (after_report now now' r s) = health_report now' r (health_at now' s)"
proof (cases s)
  case (Alive cool)
  with assms show ?thesis by (cases r; cases cool) simp_all
qed simp

text \<open>
  C29: \<open>report_connection_attempt\<close> implements the three-state machine: seen at the moment of its
  last clock reading, a failure starts a cooldown of two minutes, a success ends any cooldown, and
  a drained backend stays drained.
\<close>

theorem report_refines_health:
  assumes "arc_swap A" "now \<le> now'" "handler_get_target_status A h t = Ok s"
  shows "\<exists>h' s'. handler_report_connection_attempt A now now' t r h = (Ok (), h')
      \<and> handler_get_target_status A h' t = Ok s'
      \<and> health_at now' s' = health_report now' r (health_at now' s)"
proof -
  let ?h' = "snd (handler_report_connection_attempt A now now' t r h)"
  have laws: "simple_cooldown (handler_get_target_status A) (handler_report_connection_attempt A)
      (handler_drain A)"
    using assms(1) by (rule arc_swap.handler_laws)
  have "handler_report_connection_attempt A now now' t r h = (Ok (), ?h')"
    using cooldown_handler.report_result [OF simple_cooldown.axioms(1) [OF laws], of now now' t r h]
      assms(3) by (metis map_sum.simps(2) prod.collapse)
  moreover have "handler_get_target_status A ?h' t = Ok (after_report now now' r s)"
    using simple_cooldown.report_status [OF laws, of now now' t r h] assms(3) by simp
  ultimately show ?thesis using health_after_report [OF assms(2)] by blast
qed

theorem report_refines_health_witness:
  "\<exists>h' s'. handler_report_connection_attempt plain_cell 5 7 ''b'' Failure
        \<lparr>targets = \<lparr>target_status = [''b'' \<mapsto> Alive (Some 6)]\<rparr>\<rparr> = (Ok (), h')
      \<and> handler_get_target_status plain_cell h' ''b'' = Ok s'
      \<and> health_at 7 s' = Cooling (7 + COOLDOWN)"
  using report_refines_health [OF plain.arc_swap_axioms, of 5 7
      "\<lparr>targets = \<lparr>target_status = [''b'' \<mapsto> Alive (Some 6)]\<rparr>\<rparr>" "''b''" "Alive (Some 6)" Failure]
  by (simp add: handler_get_target_status_def ts_get_target_status_def plain_cell_def)

text \<open>
  The cooldown a failure starts lasts exactly two minutes from the second clock reading: the
  backend is cooling at every earlier instant and up from then on, with no further update.
\<close>

theorem failure_cooldown_window:
  assumes "arc_swap A" "handler_get_target_status A h t = Ok (Alive cool)"
  shows "\<exists>s'. handler_get_target_status A
        (snd (handler_report_connection_attempt A now now' t Failure h)) t = Ok s'
      \<and> (\<forall>later. health_at later s' =
           (if later < now' + from_secs 120 then Cooling (now' + from_secs 120) else Up))"
  using simple_cooldown.report_status [OF arc_swap.handler_laws [OF assms(1)],
      of now now' t Failure h] assms(2)
  by (simp add: COOLDOWN_def)

theorem failure_cooldown_window_witness:
  "\<exists>s'. handler_get_target_status plain_cell (snd (handler_report_connection_attempt plain_cell 5 7
        ''b'' Failure \<lparr>targets = \<lparr>target_status = [''b'' \<mapsto> Alive None]\<rparr>\<rparr>)) ''b'' = Ok s'
      \<and> health_at 8 s' = Cooling 120000000007 \<and> health_at 120000000007 s' = Up"
  using failure_cooldown_window [OF plain.arc_swap_axioms,
      of "\<lparr>targets = \<lparr>target_status = [''b'' \<mapsto> Alive None]\<rparr>\<rparr>" "''b''" None 5 7]
  by (auto simp: handler_get_target_status_def ts_get_target_status_def plain_cell_def
      from_secs_def)

text \<open>
  C30: one call after the other, a drain is durable: no run of reports, of any outcome and about any
  backends, brings a drained backend back.
\<close>

theorem drain_survives_reports:
  assumes "arc_swap A" "handler_get_target_status A h t = Ok s"
  shows "handler_get_target_status A
      (fold (\<lambda>(now, now', t, r) h. snd (handler_report_connection_attempt A now now' t r h)) reports
         (snd (handler_drain A t h))) t = Ok Drain"
  using cooldown_handler.drain_durable
    [OF simple_cooldown.axioms(1) [OF arc_swap.handler_laws [OF assms(1)]] assms(2)] .

theorem drain_survives_reports_witness:
  "handler_get_target_status plain_cell
      (snd (handler_report_connection_attempt plain_cell 1 2 ''b'' Failure
         (snd (handler_drain plain_cell ''b''
            \<lparr>targets = \<lparr>target_status = [''b'' \<mapsto> Alive None]\<rparr>\<rparr>)))) ''b'' = Ok Drain"
  using drain_survives_reports [OF plain.arc_swap_axioms,
      of "\<lparr>targets = \<lparr>target_status = [''b'' \<mapsto> Alive None]\<rparr>\<rparr>" "''b''" "Alive None"
         "[(1, 2, ''b'', Failure)]"]
  by (simp add: handler_get_target_status_def ts_get_target_status_def plain_cell_def)

text \<open>
  A report and a drain touch only the backend they name; for a backend the table does not know
  both return the error that names it and change nothing.
\<close>

theorem handler_frame:
  assumes "arc_swap A"
  shows "(t' \<noteq> t \<longrightarrow>
        handler_get_target_status A (snd (handler_report_connection_attempt A now now' t r h)) t'
          = handler_get_target_status A h t'
      \<and> handler_get_target_status A (snd (handler_drain A t h)) t'
          = handler_get_target_status A h t')
    \<and> (target_status (targets h) t = None \<longrightarrow>
        handler_report_connection_attempt A now now' t r h = (Err (BackendNotFound t), h)
      \<and> handler_drain A t h = (Err (BackendNotFound t), h))"
proof -
  note laws = simple_cooldown.axioms(1) [OF arc_swap.handler_laws [OF assms]]
  have "handler_report_connection_attempt A now now' t r h = (Err (BackendNotFound t), h)
      \<and> handler_drain A t h = (Err (BackendNotFound t), h)" if "target_status (targets h) t = None"
    using that by (simp add: handler_report_connection_attempt_def handler_drain_def
        handler_update_def handler_get_target_status_def ts_get_target_status_def
        ts_update_target_status_def)
  then show ?thesis
    using cooldown_handler.report_frame [OF laws] cooldown_handler.drain_status [OF laws] by simp
qed

theorem handler_frame_witness:
  "handler_drain plain_cell ''x'' \<lparr>targets = \<lparr>target_status = [''b'' \<mapsto> Alive None]\<rparr>\<rparr>
     = (Err (BackendNotFound ''x''), \<lparr>targets = \<lparr>target_status = [''b'' \<mapsto> Alive None]\<rparr>\<rparr>)
   \<and> handler_get_target_status plain_cell (snd (handler_drain plain_cell ''b''
        \<lparr>targets = \<lparr>target_status = [''b'' \<mapsto> Alive None, ''c'' \<mapsto> Alive (Some 3)]\<rparr>\<rparr>)) ''c''
     = Ok (Alive (Some 3))"
  using handler_frame [OF plain.arc_swap_axioms, of "''b''" "''x''" 0 0 Success
      "\<lparr>targets = \<lparr>target_status = [''b'' \<mapsto> Alive None]\<rparr>\<rparr>"]
    handler_frame [OF plain.arc_swap_axioms, of "''c''" "''b''" 0 0 Success
      "\<lparr>targets = \<lparr>target_status = [''b'' \<mapsto> Alive None, ''c'' \<mapsto> Alive (Some 3)]\<rparr>\<rparr>"]
  by (simp add: handler_get_target_status_def ts_get_target_status_def plain_cell_def)

end
