(* ===== verification/Cooldown_Race.thy ===== *)
theory Cooldown_Race
  imports Cooldown
begin

text \<open>
  Reports and drains of one backend from several tasks. \<open>report_connection_attempt\<close> reads the cell
  (\<open>TargetState::get_target_status\<close>) and writes it later (\<open>update_target_status\<close>) with no lock
  between the two, so another task may run in the gap. A task is an operation and how far it has
  come; a step is one access of one task to the cell.
\<close>

section \<open>Tasks and their steps\<close>

datatype race_op = ReportOp instant instant connect_result | DrainOp

datatype race_pc = Start | Loaded backend_status | Finished

record 'c race_state =
  cell :: 'c
  threads :: "(race_op \<times> race_pc) list"

fun thread_step ::
  "'c arc_swap_ops \<Rightarrow> race_op \<Rightarrow> race_pc \<Rightarrow> 'c \<Rightarrow> (race_pc \<times> 'c) option" where
  "thread_step A (ReportOp now now' r) Start c = Some (Loaded (load A c), c)"
| "thread_step A (ReportOp now now' r) (Loaded s) c =
     Some (Finished, case report_decision now now' r s of None \<Rightarrow> c | Some s' \<Rightarrow> store A s' c)"
| "thread_step A DrainOp Start c = Some (Finished, store A Drain c)"
| "thread_step A _ _ c = None"

inductive race_step :: "'c arc_swap_ops \<Rightarrow> 'c race_state \<Rightarrow> 'c race_state \<Rightarrow> bool"
  for A :: "'c arc_swap_ops" where
  step: "i < length (threads s) \<Longrightarrow> threads s ! i = (opn, pc) \<Longrightarrow>
         thread_step A opn pc (cell s) = Some (pc', c') \<Longrightarrow>
         race_step A s \<lparr>cell = c', threads = (threads s)[i := (opn, pc')]\<rparr>"

inductive race_reaches :: "'c arc_swap_ops \<Rightarrow> 'c race_state \<Rightarrow> 'c race_state \<Rightarrow> bool"
  for A :: "'c arc_swap_ops" and s :: "'c race_state" where
  refl: "race_reaches A s s"
| trans: "race_reaches A s t \<Longrightarrow> race_step A t u \<Longrightarrow> race_reaches A s u"

fun_cases thread_stepE: "thread_step A opn pc c = Some r"

definition race_init :: "'c \<Rightarrow> race_op list \<Rightarrow> 'c race_state" where
  "race_init c ops = \<lparr>cell = c, threads = map (\<lambda>opn. (opn, Start)) ops\<rparr>"

section \<open>When a drain is safe\<close>

text \<open>A task that has read an alive status may still write one.\<close>

fun stale_reader :: "race_op \<times> race_pc \<Rightarrow> bool" where
  "stale_reader (opn, Loaded (Alive _)) = True"
| "stale_reader _ = False"

lemma stale_reader_Loaded [simp]: "stale_reader (opn, Loaded s) \<longleftrightarrow> s \<noteq> Drain"
  by (cases s) auto

definition drain_settled :: "'c arc_swap_ops \<Rightarrow> 'c race_state \<Rightarrow> bool" where
  "drain_settled A s \<longleftrightarrow> load A (cell s) = Drain \<and> (\<forall>th \<in> set (threads s). \<not> stale_reader th)"

context arc_swap
begin

lemma thread_step_settled:
  assumes "thread_step A opn pc c = Some (pc', c')" "load A c = Drain" "\<not> stale_reader (opn, pc)"
  shows "load A c' = Drain \<and> \<not> stale_reader (opn, pc')"
  using assms by (elim thread_stepE) (auto simp: load_store)

lemma race_step_settled:
  assumes "race_step A s t" "drain_settled A s"
  shows "drain_settled A t"
  using assms(1)
proof (cases rule: race_step.cases)
  case (step i opn pc pc' c')
  then have "(opn, pc) \<in> set (threads s)" by (metis nth_mem)
  with assms(2) step have "load A c' = Drain \<and> \<not> stale_reader (opn, pc')"
    using thread_step_settled [of opn pc "cell s" pc' c'] by (auto simp: drain_settled_def)
  with assms(2) step show ?thesis
    by (auto simp: drain_settled_def dest!: set_update_subset_insert [THEN subsetD])
qed

lemma race_reaches_settled:
  "race_reaches A s t \<Longrightarrow> drain_settled A s \<Longrightarrow> drain_settled A t"
  by (induction rule: race_reaches.induct) (auto intro: race_step_settled)

end

text \<open>
  C31: with tasks interleaved, a drain is durable from the moment on when no task still holds an
  alive status that it read before the drain: whatever further reads and writes happen, in any
  order, the backend stays drained.
\<close>

theorem drain_durable_once_settled:
  assumes "arc_swap A" "race_reaches A s t" "load A (cell s) = Drain"
    and "\<forall>(opn, pc) \<in> set (threads s). pc = Start \<or> pc = Loaded Drain \<or> pc = Finished"
  shows "load A (cell t) = Drain"
proof -
  have "\<not> stale_reader th" if "th \<in> set (threads s)" for th
    using assms(4) that by (cases th) auto
  with assms(3) have "drain_settled A s" by (simp add: drain_settled_def)
  with assms(1,2) have "drain_settled A t" by (rule arc_swap.race_reaches_settled)
  then show ?thesis by (simp add: drain_settled_def)
qed

lemma race_reaches_snoc_step:
  "race_reaches A s t \<Longrightarrow> i < length (threads t) \<Longrightarrow> threads t ! i = (opn, pc) \<Longrightarrow>
   thread_step A opn pc (cell t) = Some (pc', c') \<Longrightarrow>
   race_reaches A s \<lparr>cell = c', threads = (threads t)[i := (opn, pc')]\<rparr>"
  by (rule race_reaches.trans) (auto intro: race_step.intros)

theorem drain_durable_once_settled_witness:
  "load plain_cell (cell \<lparr>cell = Drain, threads = [(ReportOp 1 2 Failure, Loaded Drain)]\<rparr>) = Drain"
proof -
  have "race_reaches plain_cell (race_init Drain [ReportOp 1 2 Failure])
      \<lparr>cell = Drain, threads = [(ReportOp 1 2 Failure, Loaded Drain)]\<rparr>"
    using race_reaches_snoc_step [OF race_reaches.refl [of plain_cell
          "race_init Drain [ReportOp 1 2 Failure]"], of 0 "ReportOp 1 2 Failure" Start]
    by (simp add: race_init_def plain_cell_def)
  with drain_durable_once_settled [OF plain.arc_swap_axioms this]
  show ?thesis by (simp add: race_init_def plain_cell_def)
qed

text \<open>
  C32: without that condition a drain can be lost: a report of a failure that read the status before
  the drain and writes after it leaves the backend alive, with a cooldown, although both operations
  have returned successfully.
\<close>

theorem drain_can_be_lost:
  "\<exists>s. race_reaches plain_cell (race_init (Alive None) [ReportOp now now' Failure, DrainOp]) s
     \<and> threads s = [(ReportOp now now' Failure, Finished), (DrainOp, Finished)]
     \<and> load plain_cell (cell s) = Alive (Some (now' + COOLDOWN))"
proof -
  let ?R = "ReportOp now now' Failure"
  let ?s0 = "race_init (Alive None) [?R, DrainOp]"
  have "race_reaches plain_cell ?s0
      \<lparr>cell = Alive None, threads = [(?R, Loaded (Alive None)), (DrainOp, Start)]\<rparr>"
    using race_reaches_snoc_step [OF race_reaches.refl [of plain_cell ?s0], of 0 ?R Start]
    by (simp add: race_init_def plain_cell_def)
  then have "race_reaches plain_cell ?s0
      \<lparr>cell = Drain, threads = [(?R, Loaded (Alive None)), (DrainOp, Finished)]\<rparr>"
    using race_reaches_snoc_step [of plain_cell ?s0 _ 1 DrainOp Start]
    by (fastforce simp: plain_cell_def)
  then have "race_reaches plain_cell ?s0
      \<lparr>cell = Alive (Some (now' + COOLDOWN)), threads = [(?R, Finished), (DrainOp, Finished)]\<rparr>"
    using race_reaches_snoc_step [of plain_cell ?s0 _ 0 ?R "Loaded (Alive None)"]
    by (fastforce simp: plain_cell_def)
  then show ?thesis by (intro exI conjI) (auto simp: plain_cell_def)
qed

end
