(* ===== verification/Network.thy ===== *)
theory Network
  imports Errors
begin

text \<open>
  \<open>src/network/traits.rs\<close> and \<open>src/network/tokio.rs\<close>: the four network traits as the types of their
  methods, and their production implementations. What the operating system, \<open>tokio\<close> and
  \<open>hickory_resolver\<close> do is a parameter; the model keeps the order of the calls, what is done with
  each result, and the parsing of a target. An asynchronous call reads and returns the world it
  runs in; one that may never complete returns \<open>None\<close> then.
\<close>

section \<open>The traits\<close>

type_synonym ('w, 'a) async_op = "'w \<Rightarrow> 'a \<times> 'w"
type_synonym ('w, 'a) future = "'w \<Rightarrow> ('a \<times> 'w) option"

type_synonym ('w, 'l) stream_listener_factory =
  "socket_addr \<Rightarrow> ('w, proxy_error + 'l) async_op"
type_synonym ('w, 'l, 's) stream_listener =
  "'l \<Rightarrow> ('w, proxy_error + 's \<times> socket_addr) future"
type_synonym 'w resolver = "string \<Rightarrow> ('w, proxy_error + socket_addr list) async_op"
type_synonym ('w, 's) stream_connector = "socket_addr \<Rightarrow> ('w, proxy_error + 's) future"

section \<open>The production implementations\<close>

text \<open>\<open>TokioStreamListenerFactory::bind\<close>; the socket call is a parameter.\<close>

definition tokio_bind ::
  "(socket_addr \<Rightarrow> 'w \<Rightarrow> (io_error + 'l) \<times> 'w) \<Rightarrow> ('w, 'l) stream_listener_factory" where
  "tokio_bind tcp_bind addr w =
     (case tcp_bind addr w of
        (Err e, w') \<Rightarrow> (Err (IoError e), w')
      | (Ok listener, w') \<Rightarrow> (Ok listener, w'))"

text \<open>\<open>TokioListener::accept\<close>: a failure of \<open>set_nodelay\<close> is logged and the stream kept.\<close>

definition tokio_accept ::
  "('l \<Rightarrow> 'w \<Rightarrow> ((io_error + 's \<times> socket_addr) \<times> 'w) option)
   \<Rightarrow> ('s \<Rightarrow> bool \<Rightarrow> 'w \<Rightarrow> (io_error + unit) \<times> 'w) \<Rightarrow> ('w, 'l, 's) stream_listener" where
  "tokio_accept tcp_accept set_nodelay listener w =
     (case tcp_accept listener w of
        None \<Rightarrow> None
      | Some (Err e, w1) \<Rightarrow> Some (Err (IoError e), w1)
      | Some (Ok (stream, addr), w1) \<Rightarrow>
          (case set_nodelay stream True w1 of
             (Err e, w2) \<Rightarrow> Some (Ok (stream, addr), w2)
           | (Ok _, w2) \<Rightarrow> Some (Ok (stream, addr), w2)))"

text \<open>\<open>TokioConnector::connect\<close>: a failure of \<open>set_nodelay\<close> is a failure to connect.\<close>

definition tokio_connect ::
  "(socket_addr \<Rightarrow> 'w \<Rightarrow> ((io_error + 's) \<times> 'w) option)
   \<Rightarrow> ('s \<Rightarrow> bool \<Rightarrow> 'w \<Rightarrow> (io_error + unit) \<times> 'w) \<Rightarrow> ('w, 's) stream_connector" where
  "tokio_connect tcp_connect set_nodelay addr w =
     (case tcp_connect addr w of
        None \<Rightarrow> None
      | Some (Err e, w1) \<Rightarrow> Some (Err (IoError e), w1)
      | Some (Ok stream, w1) \<Rightarrow>
          (case set_nodelay stream True w1 of
             (Err e, w2) \<Rightarrow> Some (Err (IoError e), w2)
           | (Ok _, w2) \<Rightarrow> Some (Ok stream, w2)))"

text \<open>
  \<open>HickoryTokioResolver::lookup_host\<close>: a socket address resolves to itself; otherwise the target
  is cut at its first colon, the port parsed, and the host looked up.
\<close>

definition hickory_lookup_host ::
  "'n net_error_ops \<Rightarrow> (string \<Rightarrow> 'w \<Rightarrow> ('n + ip_addr list) \<times> 'w) \<Rightarrow> 'w resolver" where
  "hickory_lookup_host N lookup_ip host w =
     (case parse_socket_addr host of
        Some addr \<Rightarrow> (Ok [addr], w)
      | None \<Rightarrow>
          (case split_once CHR '':'' host of
             None \<Rightarrow>
               (Err (BadAddressError host ''could not split into host and port''), w)
           | Some (hostname, port_string) \<Rightarrow>
               (case parse_u16 port_string of
                  None \<Rightarrow> (Err (BadAddressError host ''could not parse port as u16''), w)
                | Some port \<Rightarrow>
                    (case lookup_ip hostname w of
                       (Err e, w') \<Rightarrow> (Err (from_net_error N e), w')
                     | (Ok addrs, w') \<Rightarrow>
                         (Ok (map (\<lambda>addr. socket_addr_new addr port) addrs), w')))))"

section \<open>What a lookup can return\<close>

text \<open>
  C35: a target written as an IPv4 socket address resolves to exactly that address, whatever the
  DNS would say, and without a DNS lookup: the world does not change.
\<close>

theorem lookup_host_literal:
  "hickory_lookup_host N lookup_ip (show_socket_addr (SocketAddr (V4 a b c d) port 0)) w
     = (Ok [SocketAddr (V4 a b c d) port 0], w)"
  by (simp only: hickory_lookup_host_def parse_show_socket_addr_v4 option.case)

text \<open>
  C34: a target \<open>host:port\<close> that is no socket address, with a host name free of colons and a port in
  decimal, is looked up by its host name; every address found gets that port, in the resolver's
  order, and a failed lookup is one of the two errors after which the balancer moves on.
\<close>

theorem lookup_host_name:
  assumes "parse_socket_addr (hostname @ '':'' @ show_u16 port) = None" "CHR '':'' \<notin> set hostname"
  shows "hickory_lookup_host N lookup_ip (hostname @ '':'' @ show_u16 port) w =
    (case lookup_ip hostname w of
       (Ok addrs, w') \<Rightarrow> (Ok (map (\<lambda>ip. SocketAddr ip port 0) addrs), w')
     | (Err e, w') \<Rightarrow> (Err (if is_nx_domain N e \<or> is_no_records_found N e
                         then DnsNxError (net_error_text N e)
                         else DnsTransientError (net_error_text N e)), w'))"
proof -
  have "split_once CHR '':'' (hostname @ '':'' @ show_u16 port) = Some (hostname, show_u16 port)"
    using assms(2) by (simp add: split_once_Some)
  then show ?thesis
    using assms(1)
    by (simp add: hickory_lookup_host_def socket_addr_new_def from_net_error_def
        split: prod.splits sum.splits)
qed

text \<open>A resolver error that is its own text and never says that the name does not exist.\<close>

definition plain_net_error :: "string net_error_ops" where
  "plain_net_error =
     \<lparr>is_nx_domain = (\<lambda>e. e = ''nx''), is_no_records_found = (\<lambda>e. False), net_error_text = (\<lambda>e. e)\<rparr>"

lemma parse_socket_addr_letter:
  "to_digit_radix 10 c = None \<Longrightarrow> c \<noteq> CHR ''['' \<Longrightarrow> parse_socket_addr (c # s) = None"
  by (simp add: parse_socket_addr_def read_socket_addr_v4_def read_ipv4_addr_def read_separator_def
      read_octet_def read_number_def digits_value_def read_socket_addr_v6_def)

theorem lookup_host_name_witness:
  "hickory_lookup_host plain_net_error (\<lambda>h w. (Ok [V4 10 0 0 1, V4 10 0 0 2], w))
      (''db'' @ '':'' @ show_u16 90) () =
     (Ok [SocketAddr (V4 10 0 0 1) 90 0, SocketAddr (V4 10 0 0 2) 90 0], ())"
proof -
  have "to_digit_radix 10 CHR ''d'' = None" by (simp add: to_digit_radix_def)
  then have "parse_socket_addr (''db'' @ '':'' @ show_u16 90) = None"
    by (simp add: parse_socket_addr_letter)
  from lookup_host_name [OF this, of plain_net_error
      "\<lambda>h w. (Ok [V4 10 0 0 1, V4 10 0 0 2], w)" "()"]
  show ?thesis by simp
qed

text \<open>
  C36: a lookup fails in one of three ways only: the target has no colon, its port is no 16-bit
  number (both say so, naming the target), or the DNS lookup failed; the first two happen before
  any DNS lookup.
\<close>

theorem lookup_host_errors:
  assumes "hickory_lookup_host N lookup_ip host w = (Err e, w')"
  shows "(e = BadAddressError host ''could not split into host and port'' \<and> w' = w
            \<and> CHR '':'' \<notin> set host)
       \<or> (e = BadAddressError host ''could not parse port as u16'' \<and> w' = w
            \<and> (\<exists>h p. host = h @ '':'' @ p \<and> CHR '':'' \<notin> set h \<and> parse_u16 p = None))
       \<or> (\<exists>h p n. host = h @ '':'' @ p \<and> lookup_ip h w = (Err n, w') \<and> e = from_net_error N n
            \<and> is_dns_error e)"
  using assms
  by (auto simp: hickory_lookup_host_def split_once_None_iff split_once_Some
      split: option.splits prod.splits sum.splits)

theorem lookup_host_errors_witness:
  "hickory_lookup_host plain_net_error (\<lambda>h w. (Ok [], w)) ''db'' () =
     (Err (BadAddressError ''db'' ''could not split into host and port''), ())
   \<and> (CHR '':'' \<notin> set ''db'')"
proof -
  have "to_digit_radix 10 CHR ''d'' = None" by (simp add: to_digit_radix_def)
  then have p: "parse_socket_addr ''db'' = None" by (rule parse_socket_addr_letter) simp
  then have eq: "hickory_lookup_host plain_net_error (\<lambda>h w. (Ok [], w)) ''db'' () =
      (Err (BadAddressError ''db'' ''could not split into host and port''), ())"
    by (simp add: hickory_lookup_host_def)
  show ?thesis using lookup_host_errors [OF eq] eq by simp
qed

end
