(* ===== verification/Round_Robin.thy ===== *)
theory Round_Robin
  imports Cooldown Network
begin

text \<open>
  \<open>src/balancer/roundrobin.rs\<close>: the round-robin balancer over a resolver, a connector and a
  cooldown handler. The three are the source's type parameters; their methods are the record
  \<open>rr_deps\<close>, as transformers of the world they share with the other tasks of the proxy, so
  whatever those tasks do while this one waits is part of what a method does to the world. The
  execution is specified by its trace of calls, and the properties are read off the trace.
\<close>

section \<open>The balancer\<close>

text \<open>
  \<open>connect_within d addr\<close> is \<open>timeout(d, connector.connect(addr)).await\<close>: the connector's result
  when it completes in time, \<open>None\<close> for \<open>Elapsed\<close>.
\<close>

record ('w, 's) rr_deps =
  lookup_host :: "string \<Rightarrow> 'w \<Rightarrow> (proxy_error + socket_addr list) \<times> 'w"
  connect_within :: "duration \<Rightarrow> socket_addr \<Rightarrow> 'w \<Rightarrow> (proxy_error + 's) option \<times> 'w"
  get_target_status :: "string \<Rightarrow> 'w \<Rightarrow> (proxy_error + backend_status) \<times> 'w"
  report_connection_attempt :: "string \<Rightarrow> connect_result \<Rightarrow> 'w \<Rightarrow> (proxy_error + unit) \<times> 'w"
  instant_now :: "'w \<Rightarrow> instant \<times> 'w"

record rr_balancer =
  rr_config :: proxy_config
  port_to_rr_counter :: "u16 \<rightharpoonup> usize"

definition rr_new :: "proxy_config \<Rightarrow> rr_balancer" where
  "rr_new config =
     \<lparr>rr_config = config,
      port_to_rr_counter = fold (\<lambda>port counters. counters(port \<mapsto> 0)) (ports config) Map.empty\<rparr>"

definition CONNECT_TIMEOUT :: duration where
  "CONNECT_TIMEOUT = from_secs 5"

datatype 'a connect_attempt = Ready 'a | TryNext | Fatal proxy_error

text \<open>The loop of \<open>connect\<close> over the resolved addresses, with the report after it.\<close>

fun connect_addrs ::
  "('w, 's) rr_deps \<Rightarrow> string \<Rightarrow> socket_addr list \<Rightarrow> 'w
   \<Rightarrow> ('s \<times> socket_addr) connect_attempt \<times> 'w" where
  "connect_addrs D target [] w =
     (let (_, w1) = report_connection_attempt D target Failure w in (TryNext, w1))"
| "connect_addrs D target (sock_addr # rest) w =
     (case connect_within D CONNECT_TIMEOUT sock_addr w of
        (Some (Ok stream), w1) \<Rightarrow>
          (let (_, w2) = report_connection_attempt D target Success w1
           in (Ready (stream, sock_addr), w2))
      | (Some (Err _), w1) \<Rightarrow> connect_addrs D target rest w1
      | (None, w1) \<Rightarrow> connect_addrs D target rest w1)"

definition connect ::
  "('w, 's) rr_deps \<Rightarrow> string \<Rightarrow> 'w \<Rightarrow> ('s \<times> socket_addr) connect_attempt \<times> 'w" where
  "connect D target w =
     (case lookup_host D target w of
        (Ok sock_addrs, w1) \<Rightarrow> connect_addrs D target sock_addrs w1
      | (Err e, w1) \<Rightarrow>
          (case e of
             DnsNxError message \<Rightarrow>
               (let (_, w2) = report_connection_attempt D target Failure w1 in (TryNext, w2))
           | DnsTransientError message \<Rightarrow>
               (let (_, w2) = report_connection_attempt D target Failure w1 in (TryNext, w2))
           | _ \<Rightarrow> (Fatal e, w1)))"

text \<open>
  The first loop of \<open>connect_backend\<close>, over the targets in round-robin order: it returns from the
  function, or leaves the list of cooling targets it skipped.
\<close>

datatype 'r scan_result = Return 'r | Exhausted "string list"

fun scan_targets ::
  "('w, 's) rr_deps \<Rightarrow> string list \<Rightarrow> string list \<Rightarrow> 'w
   \<Rightarrow> (proxy_error + 's \<times> socket_addr) scan_result \<times> 'w" where
  "scan_targets D [] cooling w = (Exhausted cooling, w)"
| "scan_targets D (target # rest) cooling w =
     (case get_target_status D target w of
        (Err e, w1) \<Rightarrow> (Return (Err e), w1)
      | (Ok status, w1) \<Rightarrow>
          (let (skip, cooling', w2) =
             (case status of
                Drain \<Rightarrow> (True, cooling, w1)
              | Alive (Some time) \<Rightarrow>
                  (let (now, w') = instant_now D w1
                   in if now < time then (True, cooling @ [target], w') else (False, cooling, w'))
              | Alive None \<Rightarrow> (False, cooling, w1))
           in if skip then scan_targets D rest cooling' w2
              else (case connect D target w2 of
                      (Ready s, w3) \<Rightarrow> (Return (Ok s), w3)
                    | (TryNext, w3) \<Rightarrow> scan_targets D rest cooling' w3
                    | (Fatal e, w3) \<Rightarrow> (Return (Err e), w3))))"

text \<open>The errors of \<open>connect_backend\<close>.\<close>

definition no_targets :: "u16 \<Rightarrow> proxy_error" where
  "no_targets for_port = TargetResolutionError for_port ''No targets configured''"

definition empty_backends :: "u16 \<Rightarrow> proxy_error" where
  "empty_backends for_port =
     TargetResolutionError for_port (''Empty backends list for port '' @ show_u16 for_port)"

definition no_counter :: "u16 \<Rightarrow> proxy_error" where
  "no_counter for_port =
     ProxyStateError (''Failed to load round robin counter for port '' @ show_u16 for_port)"

definition unable_to_connect :: "u16 \<Rightarrow> proxy_error" where
  "unable_to_connect for_port =
     ConnectionError for_port (''Unable to connect to any backend for port '' @ show_u16 for_port)"

text \<open>The second loop, over the cooling targets, with the error after it.\<close>

fun try_cooling ::
  "('w, 's) rr_deps \<Rightarrow> u16 \<Rightarrow> string list \<Rightarrow> 'w \<Rightarrow> (proxy_error + 's \<times> socket_addr) \<times> 'w" where
  "try_cooling D for_port [] w =
     (Err (unable_to_connect for_port), w)"
| "try_cooling D for_port (target # rest) w =
     (case connect D target w of
        (Ready s, w1) \<Rightarrow> (Ok s, w1)
      | (TryNext, w1) \<Rightarrow> try_cooling D for_port rest w1
      | (Fatal e, w1) \<Rightarrow> (Err e, w1))"

text \<open>
  \<open>backends[(start_idx + i) % backends.len()]\<close> for \<open>i\<close> in \<open>0..backends.len()\<close>. The indices are
  natural numbers here; \<open>rr_index\<close> below has them at the width of \<open>usize\<close>.
\<close>

definition rr_order :: "nat \<Rightarrow> string list \<Rightarrow> string list" where
  "rr_order start_idx backends =
     map (\<lambda>i. backends ! ((start_idx + i) mod length backends)) [0..<length backends]"

definition connect_backend ::
  "('w, 's) rr_deps \<Rightarrow> u16 \<Rightarrow> rr_balancer \<Rightarrow> 'w
   \<Rightarrow> (proxy_error + 's \<times> socket_addr) \<times> rr_balancer \<times> 'w" where
  "connect_backend D for_port self w =
     (case get_pool (rr_config self) for_port of
        None \<Rightarrow> (Err (no_targets for_port), self, w)
      | Some backends \<Rightarrow>
          if backends = [] then
            (Err (empty_backends for_port), self, w)
          else
            (case port_to_rr_counter self for_port of
               None \<Rightarrow> (Err (no_counter for_port), self, w)
             | Some counter \<Rightarrow>
                 (let self' = self\<lparr>port_to_rr_counter :=
                                     (port_to_rr_counter self)(for_port \<mapsto> counter + 1)\<rparr>;
                      start_idx = unat counter mod length backends
                  in case scan_targets D (rr_order start_idx backends) [] w of
                       (Return res, w1) \<Rightarrow> (res, self', w1)
                     | (Exhausted cooling, w1) \<Rightarrow>
                         (let (res, w2) = try_cooling D for_port cooling w1 in (res, self', w2)))))"

text \<open>The index arithmetic at its width: \<open>usize\<close> wraps around.\<close>

definition rr_index :: "usize \<Rightarrow> nat \<Rightarrow> nat \<Rightarrow> usize" where
  "rr_index counter len i =
     (let start_idx = counter mod word_of_nat len
      in (start_idx + word_of_nat i) mod word_of_nat len)"

section \<open>The trace of an execution\<close>

datatype 's rr_event =
    GotStatus string "proxy_error + backend_status"
  | ReadClock instant
  | Resolved string "proxy_error + socket_addr list"
  | Tried duration socket_addr "(proxy_error + 's) option"
  | Reported string connect_result

text \<open>Any implementation of the three traits, recording each call with its result.\<close>

definition traced :: "('w, 's) rr_deps \<Rightarrow> ('w \<times> 's rr_event list, 's) rr_deps" where
  "traced D =
     \<lparr>lookup_host = (\<lambda>host (w, l).
        let (r, w') = lookup_host D host w in (r, (w', l @ [Resolved host r]))),
      connect_within = (\<lambda>d addr (w, l).
        let (r, w') = connect_within D d addr w in (r, (w', l @ [Tried d addr r]))),
      get_target_status = (\<lambda>t (w, l).
        let (r, w') = get_target_status D t w in (r, (w', l @ [GotStatus t r]))),
      report_connection_attempt = (\<lambda>t c (w, l).
        let (r, w') = report_connection_attempt D t c w in (r, (w', l @ [Reported t c]))),
      instant_now = (\<lambda>(w, l). let (r, w') = instant_now D w in (r, (w', l @ [ReadClock r])))\<rparr>"

lemma traced_simps:
  "lookup_host (traced D) host (w, l) =
     (let (r, w') = lookup_host D host w in (r, (w', l @ [Resolved host r])))"
  "connect_within (traced D) d addr (w, l) =
     (let (r, w') = connect_within D d addr w in (r, (w', l @ [Tried d addr r])))"
  "get_target_status (traced D) t (w, l) =
     (let (r, w') = get_target_status D t w in (r, (w', l @ [GotStatus t r])))"
  "report_connection_attempt (traced D) t c (w, l) =
     (let (r, w') = report_connection_attempt D t c w in (r, (w', l @ [Reported t c])))"
  "instant_now (traced D) (w, l) =
     (let (r, w') = instant_now D w in (r, (w', l @ [ReadClock r])))"
  by (simp_all add: traced_def)

section \<open>What the traces look like\<close>

text \<open>One attempt at a list of addresses, and at a target.\<close>

fun not_connected :: "(proxy_error + 's) option \<Rightarrow> bool" where
  "not_connected (Some (Ok _)) = False"
| "not_connected _ = True"

inductive addrs_trace ::
  "string \<Rightarrow> socket_addr list \<Rightarrow> 's rr_event list \<Rightarrow> ('s \<times> socket_addr) connect_attempt \<Rightarrow> bool"
  for target where
  none_left: "addrs_trace target [] [Reported target Failure] TryNext"
| connected: "addrs_trace target (a # rest)
     [Tried CONNECT_TIMEOUT a (Some (Ok s)), Reported target Success] (Ready (s, a))"
| failed: "not_connected r \<Longrightarrow> addrs_trace target rest tr res \<Longrightarrow>
     addrs_trace target (a # rest) (Tried CONNECT_TIMEOUT a r # tr) res"

inductive attempt_trace ::
  "string \<Rightarrow> 's rr_event list \<Rightarrow> ('s \<times> socket_addr) connect_attempt \<Rightarrow> bool"
  for target where
  dns: "is_dns_error e \<Longrightarrow> attempt_trace target [Resolved target (Err e), Reported target Failure] TryNext"
| fatal: "\<not> is_dns_error e \<Longrightarrow> attempt_trace target [Resolved target (Err e)] (Fatal e)"
| addrs: "addrs_trace target xs tr res \<Longrightarrow> attempt_trace target (Resolved target (Ok xs) # tr) res"

text \<open>The events between the check of a target and the attempt to connect to it.\<close>

fun up_check :: "string \<Rightarrow> 's rr_event list \<Rightarrow> bool" where
  "up_check t [GotStatus t' (Ok (Alive None))] \<longleftrightarrow> t' = t"
| "up_check t [GotStatus t' (Ok (Alive (Some until))), ReadClock now] \<longleftrightarrow> t' = t \<and> \<not> now < until"
| "up_check t _ \<longleftrightarrow> False"

inductive scan_trace ::
  "string list \<Rightarrow> string list \<Rightarrow> 's rr_event list
   \<Rightarrow> (proxy_error + 's \<times> socket_addr) scan_result \<Rightarrow> bool" where
  exhausted: "scan_trace [] cooling [] (Exhausted cooling)"
| status_err: "scan_trace (t # rest) cooling [GotStatus t (Err e)] (Return (Err e))"
| drained: "scan_trace rest cooling tr res \<Longrightarrow>
     scan_trace (t # rest) cooling (GotStatus t (Ok Drain) # tr) res"
| cools: "now < until \<Longrightarrow> scan_trace rest (cooling @ [t]) tr res \<Longrightarrow>
     scan_trace (t # rest) cooling (GotStatus t (Ok (Alive (Some until))) # ReadClock now # tr) res"
| ready: "up_check t pre \<Longrightarrow> attempt_trace t tr (Ready s) \<Longrightarrow>
     scan_trace (t # rest) cooling (pre @ tr) (Return (Ok s))"
| fatal: "up_check t pre \<Longrightarrow> attempt_trace t tr (Fatal e) \<Longrightarrow>
     scan_trace (t # rest) cooling (pre @ tr) (Return (Err e))"
| try_next: "up_check t pre \<Longrightarrow> attempt_trace t tr TryNext \<Longrightarrow> scan_trace rest cooling tr' res \<Longrightarrow>
     scan_trace (t # rest) cooling (pre @ tr @ tr') res"

inductive cooling_trace ::
  "u16 \<Rightarrow> string list \<Rightarrow> 's rr_event list \<Rightarrow> proxy_error + 's \<times> socket_addr \<Rightarrow> bool"
  for for_port where
  none_left: "cooling_trace for_port [] [] (Err (unable_to_connect for_port))"
| ready: "attempt_trace t tr (Ready s) \<Longrightarrow> cooling_trace for_port (t # rest) tr (Ok s)"
| fatal: "attempt_trace t tr (Fatal e) \<Longrightarrow> cooling_trace for_port (t # rest) tr (Err e)"
| try_next: "attempt_trace t tr TryNext \<Longrightarrow> cooling_trace for_port rest tr' res \<Longrightarrow>
     cooling_trace for_port (t # rest) (tr @ tr') res"

inductive backend_trace ::
  "u16 \<Rightarrow> string list \<Rightarrow> 's rr_event list \<Rightarrow> proxy_error + 's \<times> socket_addr \<Rightarrow> bool"
  for for_port order where
  returned: "scan_trace order [] tr (Return res) \<Longrightarrow> backend_trace for_port order tr res"
| cooled: "scan_trace order [] tr (Exhausted cooling) \<Longrightarrow> cooling_trace for_port cooling tr' res \<Longrightarrow>
     backend_trace for_port order (tr @ tr') res"

section \<open>Every execution has such a trace\<close>

lemma connect_addrs_traced:
  assumes "connect_addrs D t xs w = (r, w')"
  shows "\<exists>tr. connect_addrs (traced D) t xs (w, l) = (r, (w', l @ tr)) \<and> addrs_trace t xs tr r"
  using assms
proof (induction xs arbitrary: w l)
  case Nil
  then show ?case
    by (auto simp: traced_simps split: prod.splits intro: addrs_trace.intros)
next
  case (Cons a xs)
  obtain c w1 where c: "connect_within D CONNECT_TIMEOUT a w = (c, w1)" by fastforce
  show ?case
  proof (cases "not_connected c")
    case True
    with Cons.prems c have "connect_addrs D t xs w1 = (r, w')"
      by (auto split: option.splits sum.splits)
    from Cons.IH [OF this, of "l @ [Tried CONNECT_TIMEOUT a c]"] obtain tr
      where "connect_addrs (traced D) t xs (w1, l @ [Tried CONNECT_TIMEOUT a c])
          = (r, (w', (l @ [Tried CONNECT_TIMEOUT a c]) @ tr))" "addrs_trace t xs tr r" by blast
    with True c show ?thesis
      by (intro exI [of _ "Tried CONNECT_TIMEOUT a c # tr"])
        (auto simp: traced_simps split: option.splits sum.splits intro: addrs_trace.failed)
  next
    case False
    then obtain s where "c = Some (Ok s)" by (cases c rule: not_connected.cases) auto
    with Cons.prems c show ?thesis
      by (intro exI [of _ "[Tried CONNECT_TIMEOUT a c, Reported t Success]"])
        (auto simp: traced_simps split: prod.splits intro: addrs_trace.connected)
  qed
qed

lemma connect_traced:
  assumes "connect D t w = (r, w')"
  shows "\<exists>tr. connect (traced D) t (w, l) = (r, (w', l @ tr)) \<and> attempt_trace t tr r"
proof -
  obtain h w1 where h: "lookup_host D t w = (h, w1)" by fastforce
  show ?thesis
  proof (cases h)
    case (Inr xs)
    with assms h have "connect_addrs D t xs w1 = (r, w')" by (simp add: connect_def)
    from connect_addrs_traced [OF this, of "l @ [Resolved t h]"] h Inr show ?thesis
      by (auto simp: connect_def traced_simps intro: attempt_trace.addrs)
  next
    case (Inl e)
    then show ?thesis
      using assms h
      by (cases "is_dns_error e"; cases e)
        (auto simp: connect_def traced_simps split: prod.splits intro: attempt_trace.intros)
  qed
qed

text \<open>What the check of a status leads to: skip the target, or go on to the attempt.\<close>

lemma scan_targets_traced:
  assumes "scan_targets D ts cooling w = (r, w')"
  shows "\<exists>tr. scan_targets (traced D) ts cooling (w, l) = (r, (w', l @ tr)) \<and> scan_trace ts cooling tr r"
  using assms
proof (induction ts arbitrary: cooling w l)
  case Nil
  then show ?case by (auto intro: scan_trace.intros)
next
  case (Cons t ts)
  obtain st w1 where st: "get_target_status D t w = (st, w1)" by fastforce
  let ?l1 = "l @ [GotStatus t st]"
  have attempt: ?case
    if pre: "up_check t pre"
      and eq: "scan_targets D (t # ts) cooling w = (case connect D t w2 of
           (Ready s, w3) \<Rightarrow> (Return (Ok s), w3)
         | (TryNext, w3) \<Rightarrow> scan_targets D ts cooling w3
         | (Fatal e, w3) \<Rightarrow> (Return (Err e), w3))"
      and eq': "scan_targets (traced D) (t # ts) cooling (w, l) = (case connect (traced D) t (w2, l @ pre) of
           (Ready s, w3) \<Rightarrow> (Return (Ok s), w3)
         | (TryNext, w3) \<Rightarrow> scan_targets (traced D) ts cooling w3
         | (Fatal e, w3) \<Rightarrow> (Return (Err e), w3))"
    for pre w2
  proof -
    obtain c w3 where c: "connect D t w2 = (c, w3)" by fastforce
    from connect_traced [OF this] obtain tr where tr:
      "connect (traced D) t (w2, l @ pre) = (c, (w3, (l @ pre) @ tr))" "attempt_trace t tr c" by blast
    show ?thesis
    proof (cases c)
      case TryNext
      with c eq Cons.prems have "scan_targets D ts cooling w3 = (r, w')" by simp
      from Cons.IH [OF this, of "(l @ pre) @ tr"] obtain tr' where
        "scan_targets (traced D) ts cooling (w3, (l @ pre) @ tr) = (r, (w', ((l @ pre) @ tr) @ tr'))"
        "scan_trace ts cooling tr' r" by blast
      with pre tr eq' TryNext show ?thesis
        by (intro exI [of _ "pre @ tr @ tr'"]) (auto intro: scan_trace.try_next)
    next
      case (Ready s)
      with pre tr eq' c eq Cons.prems show ?thesis
        by (intro exI [of _ "pre @ tr"]) (auto intro: scan_trace.ready)
    next
      case (Fatal e)
      with pre tr eq' c eq Cons.prems show ?thesis
        by (intro exI [of _ "pre @ tr"]) (auto intro: scan_trace.fatal)
    qed
  qed
  show ?case
  proof (cases st)
    case (Inl e)
    with st Cons.prems show ?thesis
      by (intro exI [of _ "[GotStatus t st]"]) (auto simp: traced_simps intro: scan_trace.status_err)
  next
    case (Inr s)
    show ?thesis
    proof (cases s)
      case Drain
      with st Inr Cons.prems have "scan_targets D ts cooling w1 = (r, w')" by simp
      from Cons.IH [OF this, of ?l1] obtain tr where
        "scan_targets (traced D) ts cooling (w1, ?l1) = (r, (w', ?l1 @ tr))"
        "scan_trace ts cooling tr r" by blast
      with st Inr Drain show ?thesis
        by (intro exI [of _ "GotStatus t st # tr"]) (auto simp: traced_simps intro: scan_trace.drained)
    next
      case (Alive cool)
      show ?thesis
      proof (cases cool)
        case None
        with Alive Inr st show ?thesis
          by (intro attempt [of "[GotStatus t st]" w1]) (simp_all add: traced_simps)
      next
        case (Some until)
        obtain now w2 where now: "instant_now D w1 = (now, w2)" by fastforce
        let ?l2 = "l @ [GotStatus t st, ReadClock now]"
        show ?thesis
        proof (cases "now < until")
          case True
          with st Inr Alive Some now Cons.prems
          have "scan_targets D ts (cooling @ [t]) w2 = (r, w')" by simp
          from Cons.IH [OF this, of ?l2] obtain tr where
            "scan_targets (traced D) ts (cooling @ [t]) (w2, ?l2) = (r, (w', ?l2 @ tr))"
            "scan_trace ts (cooling @ [t]) tr r" by blast
          with st Inr Alive Some now True show ?thesis
            by (intro exI [of _ "GotStatus t st # ReadClock now # tr"])
              (auto simp: traced_simps intro: scan_trace.cools)
        next
          case False
          with st Inr Alive Some now show ?thesis
            by (intro attempt [of "[GotStatus t st, ReadClock now]" w2]) (simp_all add: traced_simps)
        qed
      qed
    qed
  qed
qed

lemma try_cooling_traced:
  assumes "try_cooling D p ts w = (r, w')"
  shows "\<exists>tr. try_cooling (traced D) p ts (w, l) = (r, (w', l @ tr)) \<and> cooling_trace p ts tr r"
  using assms
proof (induction ts arbitrary: w l)
  case Nil
  then show ?case by (auto intro: cooling_trace.intros)
next
  case (Cons t ts)
  obtain c w1 where c: "connect D t w = (c, w1)" by fastforce
  from connect_traced [OF this] obtain tr where tr:
    "connect (traced D) t (w, l) = (c, (w1, l @ tr))" "attempt_trace t tr c" by blast
  show ?case
  proof (cases c)
    case TryNext
    with c Cons.prems have "try_cooling D p ts w1 = (r, w')" by simp
    from Cons.IH [OF this, of "l @ tr"] obtain tr' where
      "try_cooling (traced D) p ts (w1, l @ tr) = (r, (w', (l @ tr) @ tr'))" "cooling_trace p ts tr' r"
      by blast
    with tr TryNext show ?thesis
      by (intro exI [of _ "tr @ tr'"]) (auto intro: cooling_trace.try_next)
  qed (use tr c Cons.prems in \<open>auto intro!: exI [of _ tr] intro: cooling_trace.intros\<close>)
qed

lemma connect_backend_cases:
  obtains (early) e where "\<And>w. connect_backend D port self w = (Err e, self, w)"
      "\<And>w. connect_backend (traced D) port self w = (Err e, self, w)"
      "e \<in> {no_targets port, empty_backends port, no_counter port}"
  | (run) backends counter where "get_pool (rr_config self) port = Some backends" "backends \<noteq> []"
      "port_to_rr_counter self port = Some counter"
proof (cases "get_pool (rr_config self) port")
  case None
  then show ?thesis by (intro early [of "no_targets port"]) (auto simp: connect_backend_def)
next
  case (Some backends)
  show ?thesis
  proof (cases "backends = []")
    case True
    with Some show ?thesis
      by (intro early [of "empty_backends port"]) (auto simp: connect_backend_def)
  next
    case False
    with Some show ?thesis
      by (cases "port_to_rr_counter self port")
        (auto intro: early [of "no_counter port"] run simp: connect_backend_def)
  qed
qed

text \<open>The order in which the targets of a port are visited by the next call.\<close>

definition visit_order :: "rr_balancer \<Rightarrow> u16 \<Rightarrow> string list" where
  "visit_order self port =
     (case get_pool (rr_config self) port of
        None \<Rightarrow> []
      | Some backends \<Rightarrow>
          (case port_to_rr_counter self port of
             None \<Rightarrow> []
           | Some counter \<Rightarrow> rotate (unat counter mod length backends) backends))"

lemma rr_order_rotate: "rr_order k xs = rotate k xs"
  by (rule nth_equalityI) (auto simp: rr_order_def nth_rotate)

definition bump_counter :: "rr_balancer \<Rightarrow> u16 \<Rightarrow> rr_balancer" where
  "bump_counter self port =
     self\<lparr>port_to_rr_counter :=
       (port_to_rr_counter self)(port := map_option (\<lambda>c. c + 1) (port_to_rr_counter self port))\<rparr>"

lemma connect_backend_run:
  assumes "get_pool (rr_config self) port = Some backends" "backends \<noteq> []"
    "port_to_rr_counter self port = Some counter"
  shows "connect_backend D port self w =
    (case scan_targets D (visit_order self port) [] w of
       (Return res, w1) \<Rightarrow> (res, bump_counter self port, w1)
     | (Exhausted cooling, w1) \<Rightarrow>
         (let (res, w2) = try_cooling D port cooling w1 in (res, bump_counter self port, w2)))"
proof -
  have "bump_counter self port = self\<lparr>port_to_rr_counter :=
      (port_to_rr_counter self)(port \<mapsto> counter + 1)\<rparr>"
    using assms by (simp add: bump_counter_def)
  with assms show ?thesis
    by (simp add: connect_backend_def visit_order_def rr_order_rotate Let_def
        split: prod.split scan_result.split)
qed

text \<open>
  What a recorded run is: it returns what the run without the record returns, and its record is
  either empty, for one of the three configuration errors, or a trace over the visiting order.
\<close>

lemma connect_backend_traced:
  assumes "connect_backend (traced D) port self (w, l) = (res, self', v)"
  shows "\<exists>w' tr. v = (w', l @ tr) \<and> connect_backend D port self w = (res, self', w')
    \<and> (backend_trace port (visit_order self port) tr res \<and> self' = bump_counter self port
       \<or> tr = [] \<and> self' = self
         \<and> (\<exists>e \<in> {no_targets port, empty_backends port, no_counter port}. res = Err e))"
proof (cases rule: connect_backend_cases [of D port self])
  case (early e)
  with assms show ?thesis by auto
next
  case (run backends counter)
  obtain sr w1 where s: "scan_targets D (visit_order self port) [] w = (sr, w1)" by fastforce
  from scan_targets_traced [OF this] obtain tr where tr:
    "scan_targets (traced D) (visit_order self port) [] (w, l) = (sr, (w1, l @ tr))"
    "scan_trace (visit_order self port) [] tr sr" by blast
  show ?thesis
  proof (cases sr)
    case (Return r)
    with tr s assms run show ?thesis
      by (auto simp: connect_backend_run [OF run] intro: backend_trace.returned)
  next
    case (Exhausted cooling)
    obtain r w2 where t: "try_cooling D port cooling w1 = (r, w2)" by fastforce
    from try_cooling_traced [OF this, of "l @ tr"] obtain tr' where
      "try_cooling (traced D) port cooling (w1, l @ tr) = (r, (w2, (l @ tr) @ tr'))"
      "cooling_trace port cooling tr' r" by blast
    with tr s t assms run Exhausted show ?thesis
      by (auto simp: connect_backend_run [OF run] intro!: exI [of _ "tr @ tr'"]
          intro: backend_trace.cooled)
  qed
qed

section \<open>Reading a trace\<close>

definition status_checks :: "'s rr_event list \<Rightarrow> string list" where
  "status_checks tr = concat (map (\<lambda>e. case e of GotStatus t _ \<Rightarrow> [t] | _ \<Rightarrow> []) tr)"

definition resolutions :: "'s rr_event list \<Rightarrow> string list" where
  "resolutions tr = concat (map (\<lambda>e. case e of Resolved t _ \<Rightarrow> [t] | _ \<Rightarrow> []) tr)"

definition connections :: "'s rr_event list \<Rightarrow> ('s \<times> socket_addr) list" where
  "connections tr =
     concat (map (\<lambda>e. case e of Tried d a (Some (Ok s)) \<Rightarrow> [(s, a)] | _ \<Rightarrow> []) tr)"

definition reports :: "'s rr_event list \<Rightarrow> (string \<times> connect_result) list" where
  "reports tr = concat (map (\<lambda>e. case e of Reported t r \<Rightarrow> [(t, r)] | _ \<Rightarrow> []) tr)"

text \<open>The targets whose check found them up, and those it found cooling, in order.\<close>

fun up_checked :: "'s rr_event list \<Rightarrow> string list" where
  "up_checked (GotStatus t (Ok (Alive None)) # tr) = t # up_checked tr"
| "up_checked (GotStatus t (Ok (Alive (Some until))) # ReadClock now # tr) =
     (if now < until then [] else [t]) @ up_checked tr"
| "up_checked (e # tr) = up_checked tr"
| "up_checked [] = []"

fun cooling_checked :: "'s rr_event list \<Rightarrow> string list" where
  "cooling_checked (GotStatus t (Ok (Alive (Some until))) # ReadClock now # tr) =
     (if now < until then [t] else []) @ cooling_checked tr"
| "cooling_checked (e # tr) = cooling_checked tr"
| "cooling_checked [] = []"

lemmas reading_defs = status_checks_def resolutions_def connections_def reports_def

lemma reading_Nil [simp]:
  "status_checks [] = []" "resolutions [] = []" "connections [] = []" "reports [] = []"
  by (simp_all add: reading_defs)

lemma reading_Cons [simp]:
  "status_checks (GotStatus t x # tr) = t # status_checks tr"
  "status_checks (ReadClock now # tr) = status_checks tr"
  "status_checks (Resolved t h # tr) = status_checks tr"
  "status_checks (Tried d a c # tr) = status_checks tr"
  "status_checks (Reported t r # tr) = status_checks tr"
  "resolutions (GotStatus t x # tr) = resolutions tr"
  "resolutions (ReadClock now # tr) = resolutions tr"
  "resolutions (Resolved t h # tr) = t # resolutions tr"
  "resolutions (Tried d a c # tr) = resolutions tr"
  "resolutions (Reported t r # tr) = resolutions tr"
  "reports (GotStatus t x # tr) = reports tr"
  "reports (ReadClock now # tr) = reports tr"
  "reports (Resolved t h # tr) = reports tr"
  "reports (Tried d a c # tr) = reports tr"
  "reports (Reported t r # tr) = (t, r) # reports tr"
  "connections (GotStatus t x # tr) = connections tr"
  "connections (ReadClock now # tr) = connections tr"
  "connections (Resolved t h # tr) = connections tr"
  "connections (Tried d a c # tr) = (case c of Some (Ok s) \<Rightarrow> [(s, a)] | _ \<Rightarrow> []) @ connections tr"
  "connections (Reported t r # tr) = connections tr"
  by (simp_all add: reading_defs)

lemma reading_append [simp]:
  "status_checks (xs @ ys) = status_checks xs @ status_checks ys"
  "resolutions (xs @ ys) = resolutions xs @ resolutions ys"
  "connections (xs @ ys) = connections xs @ connections ys"
  "reports (xs @ ys) = reports xs @ reports ys"
  by (simp_all add: reading_defs)

text \<open>Events of an attempt hold no status check and no clock reading.\<close>

fun attempt_event :: "'s rr_event \<Rightarrow> bool" where
  "attempt_event (GotStatus _ _) = False"
| "attempt_event (ReadClock _) = False"
| "attempt_event _ = True"

lemma attempt_events_checked:
  assumes "\<forall>e \<in> set tr. attempt_event e"
  shows "status_checks tr = []" "up_checked (tr @ tr') = up_checked tr'"
    "cooling_checked (tr @ tr') = cooling_checked tr'"
proof -
  show "status_checks tr = []"
    using assms by (induction tr) (auto simp: reading_defs split: rr_event.splits)
  show "up_checked (tr @ tr') = up_checked tr'"
  proof (use assms in \<open>induction tr\<close>)
    case (Cons e tr)
    then show ?case by (cases e) auto
  qed simp
  show "cooling_checked (tr @ tr') = cooling_checked tr'"
  proof (use assms in \<open>induction tr\<close>)
    case (Cons e tr)
    then show ?case by (cases e) auto
  qed simp
qed

text \<open>What one attempt leaves in the trace.\<close>

fun attempt_reports :: "string \<Rightarrow> 'a connect_attempt \<Rightarrow> (string \<times> connect_result) list" where
  "attempt_reports t (Ready _) = [(t, Success)]"
| "attempt_reports t TryNext = [(t, Failure)]"
| "attempt_reports t (Fatal _) = []"

fun attempt_connections :: "'a connect_attempt \<Rightarrow> 'a list" where
  "attempt_connections (Ready s) = [s]"
| "attempt_connections _ = []"

lemma addrs_trace_facts:
  assumes "addrs_trace t xs tr res"
  shows "(\<forall>e \<in> set tr. attempt_event e) \<and> resolutions tr = [] \<and> connections tr = attempt_connections res
    \<and> reports tr = attempt_reports t res \<and> (\<forall>e. res \<noteq> Fatal e)
    \<and> (\<forall>d a r. Tried d a r \<in> set tr \<longrightarrow> d = CONNECT_TIMEOUT \<and> a \<in> set xs)"
  using assms
proof (induction rule: addrs_trace.induct)
  case (failed r rest tr res a)
  then have "connections [Tried CONNECT_TIMEOUT a r] = []"
    by (cases r rule: not_connected.cases) (auto simp: reading_defs)
  with failed show ?case by (auto simp: reading_defs)
qed (auto simp: reading_defs)

lemma attempt_trace_facts:
  assumes "attempt_trace t tr res"
  shows "(\<forall>e \<in> set tr. attempt_event e) \<and> resolutions tr = [t] \<and> connections tr = attempt_connections res
    \<and> reports tr = attempt_reports t res
    \<and> (\<forall>e. res = Fatal e \<longrightarrow> Resolved t (Err e) \<in> set tr \<and> \<not> is_dns_error e)
    \<and> (\<forall>d a r. Tried d a r \<in> set tr \<longrightarrow>
         d = CONNECT_TIMEOUT \<and> (\<exists>xs. Resolved t (Ok xs) \<in> set tr \<and> a \<in> set xs))"
  using assms
proof (cases rule: attempt_trace.cases)
  case (addrs xs tr')
  with addrs_trace_facts [OF addrs(2)] show ?thesis by (simp add: reading_defs) blast
qed (auto simp: reading_defs)

lemma up_check_facts:
  assumes "up_check t pre"
  shows "status_checks pre = [t]" "up_checked (pre @ tr) = t # up_checked tr"
    "cooling_checked (pre @ tr) = cooling_checked tr" "resolutions pre = []" "connections pre = []"
    "reports pre = []" "\<exists>s. GotStatus t (Ok s) \<in> set pre \<and> s \<noteq> Drain" "Tried d a r \<notin> set pre"
    "Resolved t' x \<notin> set pre"
proof -
  have cases: "pre = [GotStatus t (Ok (Alive None))] \<or>
      (\<exists>until now. pre = [GotStatus t (Ok (Alive (Some until))), ReadClock now] \<and> \<not> now < until)"
    using assms by (cases "(t, pre)" rule: up_check.cases) auto
  show "status_checks pre = [t]" "up_checked (pre @ tr) = t # up_checked tr"
    "resolutions pre = []" "connections pre = []"
    "reports pre = []" "\<exists>s. GotStatus t (Ok s) \<in> set pre \<and> s \<noteq> Drain" "Tried d a r \<notin> set pre"
    "Resolved t' x \<notin> set pre"
    using cases by (auto simp: reading_defs)
  show "cooling_checked (pre @ tr) = cooling_checked tr"
    using cases by (elim disjE exE conjE; cases tr) (auto split: rr_event.splits)
qed

lemma scan_trace_order:
  "scan_trace ts cooling tr r \<Longrightarrow>
   (\<exists>k. status_checks tr = take k ts) \<and> resolutions tr = up_checked tr \<and>
   (\<forall>cooling'. r = Exhausted cooling' \<longrightarrow>
      status_checks tr = ts \<and> cooling' = cooling @ cooling_checked tr)"
proof (induction rule: scan_trace.induct)
  case (exhausted cooling)
  then show ?case by simp
next
  case (status_err t rest cooling e)
  have "status_checks [GotStatus t (Err e)] = take 1 (t # rest)" by simp
  moreover have "resolutions [GotStatus t (Err e)] = up_checked [GotStatus t (Err e)]"
    by simp
  ultimately show ?case by blast
next
  case (drained rest cooling tr res t)
  then obtain k where "status_checks tr = take k rest" by blast
  then have "status_checks (GotStatus t (Ok Drain) # tr) = take (Suc k) (t # rest)" by simp
  with drained.IH show ?case by (intro conjI exI [of _ "Suc k"]) simp_all
next
  case (cools now until rest cooling t tr res)
  then obtain k where "status_checks tr = take k rest" by blast
  then have "status_checks (GotStatus t (Ok (Alive (Some until))) # ReadClock now # tr)
      = take (Suc k) (t # rest)" by simp
  with cools.IH cools.hyps(1) show ?case by (intro conjI exI [of _ "Suc k"]) simp_all
next
  case (ready t pre tr s rest cooling)
  note att = attempt_trace_facts [OF ready(2)] and up = up_check_facts [OF ready(1)]
  have "status_checks (pre @ tr) = take 1 (t # rest)"
    using att attempt_events_checked(1) [of tr] by (simp add: up(1))
  moreover have "resolutions (pre @ tr) = up_checked (pre @ tr)"
    using att attempt_events_checked(2) [of tr "[]"] by (simp add: up(2,4))
  ultimately show ?case by blast
next
  case (fatal t pre tr e rest cooling)
  note att = attempt_trace_facts [OF fatal(2)] and up = up_check_facts [OF fatal(1)]
  have "status_checks (pre @ tr) = take 1 (t # rest)"
    using att attempt_events_checked(1) [of tr] by (simp add: up(1))
  moreover have "resolutions (pre @ tr) = up_checked (pre @ tr)"
    using att attempt_events_checked(2) [of tr "[]"] by (simp add: up(2,4))
  ultimately show ?case by blast
next
  case (try_next t pre tr rest cooling tr' res)
  note att = attempt_trace_facts [OF try_next(2)] and up = up_check_facts [OF try_next(1)]
  note ev = attempt_events_checked [OF conjunct1 [OF att]]
  from try_next obtain k where k: "status_checks tr' = take k rest" by blast
  have "status_checks (pre @ tr @ tr') = t # status_checks tr'" by (simp add: up(1) ev(1))
  moreover have "resolutions (pre @ tr @ tr') = up_checked (pre @ tr @ tr')"
    using att try_next.IH by (simp add: up(2,4) ev(2))
  moreover have "cooling_checked (pre @ tr @ tr') = cooling_checked tr'"
    by (simp add: up(3) ev(3))
  ultimately show ?case using try_next.IH k by (intro conjI exI [of _ "Suc k"]) simp_all
qed

text \<open>How a run ends, or that it goes on: the stream it made and the reports it sent.\<close>

abbreviation failures :: "string list \<Rightarrow> (string \<times> connect_result) list" where
  "failures ts \<equiv> map (\<lambda>t. (t, Failure)) ts"

fun trace_outcome :: "'s rr_event list \<Rightarrow> (proxy_error + 's \<times> socket_addr) option \<Rightarrow> bool" where
  "trace_outcome tr None \<longleftrightarrow> connections tr = [] \<and> reports tr = failures (resolutions tr)"
| "trace_outcome tr (Some (Ok s)) \<longleftrightarrow>
     connections tr = [s] \<and>
     (\<exists>ts t. resolutions tr = ts @ [t] \<and> reports tr = failures ts @ [(t, Success)])"
| "trace_outcome tr (Some (Err e)) \<longleftrightarrow>
     connections tr = [] \<and>
     ((\<exists>t. GotStatus t (Err e) \<in> set tr) \<and> reports tr = failures (resolutions tr)
      \<or> (\<exists>ts t. resolutions tr = ts @ [t] \<and> reports tr = failures ts
              \<and> Resolved t (Err e) \<in> set tr \<and> \<not> is_dns_error e))"

lemma trace_outcome_append:
  assumes "trace_outcome tr None" "trace_outcome tr' r"
  shows "trace_outcome (tr @ tr') r"
proof (cases "(tr', r)" rule: trace_outcome.cases)
  case (2 tr'' s)
  with assms(2) obtain ts t where "resolutions tr' = ts @ [t]" "reports tr' = failures ts @ [(t, Success)]"
    by auto
  with assms 2 show ?thesis by (auto intro!: exI [of _ "resolutions tr @ ts"])
next
  case (3 tr'' e)
  then show ?thesis
  proof (cases "\<exists>ts t. resolutions tr' = ts @ [t] \<and> reports tr' = failures ts
              \<and> Resolved t (Err e) \<in> set tr' \<and> \<not> is_dns_error e")
    case True
    then obtain ts t where "resolutions tr' = ts @ [t]" "reports tr' = failures ts"
      "Resolved t (Err e) \<in> set tr'" "\<not> is_dns_error e" by blast
    with assms 3 show ?thesis by (auto intro!: exI [of _ "resolutions tr @ ts"])
  qed (use assms 3 in auto)
qed (use assms in auto)

lemma attempt_outcome:
  assumes "attempt_trace t tr res"
  shows "trace_outcome tr (case res of Ready s \<Rightarrow> Some (Ok s) | TryNext \<Rightarrow> None | Fatal e \<Rightarrow> Some (Err e))"
  using attempt_trace_facts [OF assms] by (cases res) auto

lemma up_check_outcome: "up_check t pre \<Longrightarrow> trace_outcome pre None"
  by (simp add: up_check_facts(4-6))

lemma scan_trace_outcome:
  "scan_trace ts cooling tr r \<Longrightarrow>
   trace_outcome tr (case r of Return res \<Rightarrow> Some res | Exhausted _ \<Rightarrow> None)"
proof (induction rule: scan_trace.induct)
  case (drained rest cooling tr res t)
  then show ?case
    using trace_outcome_append [of "[GotStatus t (Ok Drain)]"] by simp
next
  case (cools now until rest cooling t tr res)
  then show ?case
    using trace_outcome_append [of "[GotStatus t (Ok (Alive (Some until))), ReadClock now]"]
    by simp
next
  case (ready t pre tr s rest cooling)
  then show ?case
    using trace_outcome_append [OF up_check_outcome attempt_outcome] by fastforce
next
  case (fatal t pre tr e rest cooling)
  then show ?case
    using trace_outcome_append [OF up_check_outcome attempt_outcome] by fastforce
next
  case (try_next t pre tr rest cooling tr' res)
  have "trace_outcome (pre @ tr) None"
    using trace_outcome_append [OF up_check_outcome attempt_outcome] try_next by fastforce
  from trace_outcome_append [OF this try_next.IH] show ?case by simp
qed auto

lemma attempt_events_suffix:
  assumes "\<forall>e \<in> set tr'. attempt_event e"
  shows "up_checked (tr @ tr') = up_checked tr" "cooling_checked (tr @ tr') = cooling_checked tr"
proof -
  have nil: "up_checked tr' = []" "cooling_checked tr' = []"
    using attempt_events_checked(2,3) [OF assms, of "[]"] by simp_all
  have last: "up_checked (GotStatus t (Ok (Alive (Some u))) # tr') = []" for t u
  proof -
    show "up_checked (GotStatus t (Ok (Alive (Some u))) # tr') = []"
    proof (cases tr')
      case (Cons e l)
      with nil assms show ?thesis by (cases e) simp_all
    qed simp
  qed
  have last': "cooling_checked (e # tr') = []" for e
    by (cases "e # tr'" rule: cooling_checked.cases) (use nil assms in auto)
  show "up_checked (tr @ tr') = up_checked tr"
    by (induction tr rule: up_checked.induct) (simp_all add: nil last)
  show "cooling_checked (tr @ tr') = cooling_checked tr"
    by (induction tr rule: cooling_checked.induct) (simp_all add: nil last')
qed

lemma cooling_trace_facts:
  "cooling_trace p ts tr r \<Longrightarrow>
   (\<forall>e \<in> set tr. attempt_event e) \<and> (\<exists>k. resolutions tr = take k ts)
   \<and> (trace_outcome tr (Some r)
      \<or> r = Err (unable_to_connect p) \<and> trace_outcome tr None \<and> resolutions tr = ts)"
proof (induction rule: cooling_trace.induct)
  case none_left
  then show ?case by simp
next
  case (ready t tr s rest)
  have "resolutions tr = take 1 (t # rest)" using attempt_trace_facts [OF ready] by simp
  with attempt_trace_facts [OF ready] attempt_outcome [OF ready] show ?case
    by (metis connect_attempt.case(1))
next
  case (fatal t tr e rest)
  have "resolutions tr = take 1 (t # rest)" using attempt_trace_facts [OF fatal] by simp
  with attempt_trace_facts [OF fatal] attempt_outcome [OF fatal] show ?case
    by (metis connect_attempt.case(3))
next
  case (try_next t tr rest tr' res)
  note att = attempt_trace_facts [OF try_next(1)]
  have none: "trace_outcome tr None" using attempt_outcome [OF try_next(1)] by simp
  have "trace_outcome (tr @ tr') (Some res)
      \<or> res = Err (unable_to_connect p) \<and> trace_outcome (tr @ tr') None
        \<and> resolutions (tr @ tr') = t # rest"
    using try_next.IH att trace_outcome_append [OF none] by auto
  moreover from try_next.IH obtain k where "resolutions tr' = take k rest" by blast
  then have "resolutions (tr @ tr') = take (Suc k) (t # rest)" using att by simp
  ultimately show ?case using try_next.IH att by (metis UnE set_append)
qed

text \<open>
  The two phases of a run: the scan, then the cooling targets, which is entered only after every
  target has been checked.
\<close>

lemma backend_trace_facts:
  assumes "backend_trace p order tr r"
  shows "(\<exists>k. status_checks tr = take k order)
    \<and> (\<exists>k. resolutions tr = up_checked tr @ take k (cooling_checked tr)
         \<and> (take k (cooling_checked tr) \<noteq> [] \<longrightarrow> status_checks tr = order))
    \<and> (trace_outcome tr (Some r)
       \<or> r = Err (unable_to_connect p) \<and> trace_outcome tr None \<and> status_checks tr = order
         \<and> resolutions tr = up_checked tr @ cooling_checked tr)"
  using assms
proof (cases rule: backend_trace.cases)
  case returned
  note facts = scan_trace_order [OF returned] and out = scan_trace_outcome [OF returned]
  from facts have "resolutions tr = up_checked tr @ take 0 (cooling_checked tr)" by simp
  with facts out show ?thesis by (metis scan_result.case(1) take0)
next
  case (cooled tr1 cooling tr2)
  note f1 = scan_trace_order [OF cooled(2)] and o1 = scan_trace_outcome [OF cooled(2)]
  note f2 = cooling_trace_facts [OF cooled(3)]
  note checked = attempt_events_suffix [OF conjunct1 [OF f2], of tr1]
    attempt_events_checked(1) [OF conjunct1 [OF f2]]
  from f1 have st: "status_checks tr1 = order" "cooling = cooling_checked tr1" by auto
  from f2 st(2) obtain k where "resolutions tr2 = take k (cooling_checked tr1)" by auto
  then have "resolutions tr = up_checked tr @ take k (cooling_checked tr)" "status_checks tr = order"
    using cooled(1) f1 st checked by simp_all
  moreover have "trace_outcome tr (Some r) \<or> r = Err (unable_to_connect p) \<and> trace_outcome tr None
      \<and> resolutions tr = up_checked tr @ cooling_checked tr"
    using f2 f1 st cooled(1) checked trace_outcome_append [of tr1 tr2] o1 by auto
  ultimately show ?thesis by (metis order_refl take_all)
qed

text \<open>
  Every target that is resolved was checked before, and the check did not find it drained. The set
  is of the targets checked so far; \<open>cleared_by\<close> is what a trace adds to it.
\<close>

fun cleared :: "string set \<Rightarrow> 's rr_event list \<Rightarrow> bool" where
  "cleared S [] = True"
| "cleared S (GotStatus t (Ok s) # tr) = cleared (if s = Drain then S else insert t S) tr"
| "cleared S (Resolved t h # tr) = (t \<in> S \<and> cleared S tr)"
| "cleared S (e # tr) = cleared S tr"

definition cleared_by :: "'s rr_event list \<Rightarrow> string set" where
  "cleared_by tr = {t. \<exists>s. GotStatus t (Ok s) \<in> set tr \<and> s \<noteq> Drain}"

lemma cleared_append: "cleared S (xs @ ys) \<longleftrightarrow> cleared S xs \<and> cleared (S \<union> cleared_by xs) ys"
proof (induction S xs rule: cleared.induct)
  case (2 S t s tr)
  have "(if s = Drain then S else insert t S) \<union> cleared_by tr
      = S \<union> cleared_by (GotStatus t (Ok s) # tr)"
    by (auto simp: cleared_by_def)
  with 2 show ?case by simp
qed (auto simp: cleared_by_def)

lemma cleared_split: "cleared {} (pre @ Resolved t h # post) \<Longrightarrow> t \<in> cleared_by pre"
  by (simp add: cleared_append)

lemma attempt_cleared:
  assumes "attempt_trace t tr r" "t \<in> S"
  shows "cleared S tr"
proof -
  have addrs: "addrs_trace t xs tr' r \<Longrightarrow> cleared S tr'" for xs tr'
    by (induction rule: addrs_trace.induct) auto
  from assms show ?thesis
    by (cases rule: attempt_trace.cases) (auto dest: addrs)
qed

lemma up_check_cleared:
  assumes "up_check t pre"
  shows "cleared S pre" "t \<in> cleared_by pre"
  using assms by (cases "(t, pre)" rule: up_check.cases; auto simp: cleared_by_def)+

lemma scan_trace_cleared:
  "scan_trace ts cooling tr r \<Longrightarrow> set cooling \<subseteq> S \<Longrightarrow>
   cleared S tr \<and> (\<forall>cooling'. r = Exhausted cooling' \<longrightarrow> set cooling' \<subseteq> S \<union> cleared_by tr)"
proof (induction arbitrary: S rule: scan_trace.induct)
  case (drained rest cooling tr res t)
  have "cleared_by (GotStatus t (Ok Drain) # tr) = cleared_by tr" by (auto simp: cleared_by_def)
  with drained.IH [OF drained.prems] show ?case by simp
next
  case (cools now until rest cooling t tr res)
  then have "set (cooling @ [t]) \<subseteq> insert t S" by auto
  from cools.IH [OF this] show ?case by (auto simp: cleared_by_def)
next
  case (ready t pre tr s rest cooling)
  with up_check_cleared [OF ready(1)] show ?case
    by (auto simp: cleared_append intro: attempt_cleared)
next
  case (fatal t pre tr e rest cooling)
  with up_check_cleared [OF fatal(1)] show ?case
    by (auto simp: cleared_append intro: attempt_cleared)
next
  case (try_next t pre tr rest cooling tr' res)
  let ?S = "S \<union> cleared_by pre \<union> cleared_by tr"
  have "cleared (S \<union> cleared_by pre) tr"
    using up_check_cleared [OF try_next(1)] try_next(2) by (auto intro: attempt_cleared)
  moreover have "set cooling \<subseteq> ?S" using try_next.prems by auto
  note try_next.IH [OF this]
  moreover have "?S \<union> cleared_by tr' = S \<union> cleared_by (pre @ tr @ tr')"
    by (auto simp: cleared_by_def)
  ultimately show ?case
    using up_check_cleared [OF try_next(1)] by (simp add: cleared_append)
qed (auto simp: cleared_by_def)

lemma backend_trace_cleared:
  assumes "backend_trace p order tr r"
  shows "cleared {} tr"
proof -
  have cool: "cooling_trace p ts tr' r \<Longrightarrow> set ts \<subseteq> S \<Longrightarrow> cleared S tr'" for ts tr' S
  proof (induction arbitrary: S rule: cooling_trace.induct)
    case (try_next t tr rest tr' res)
    then show ?case
      using attempt_cleared [OF try_next(1), of S]
      by (auto simp: cleared_append intro: try_next.IH)
  qed (auto intro: attempt_cleared)
  show ?thesis
    using assms
  proof (cases rule: backend_trace.cases)
    case returned
    then show ?thesis using scan_trace_cleared [of order "[]" tr _ "{}"] by simp
  next
    case (cooled tr1 cooling tr2)
    then show ?thesis
      using scan_trace_cleared [OF cooled(2), of "{}"] cool [OF cooled(3), of "cleared_by tr1"]
      by (simp add: cleared_append)
  qed
qed

text \<open>Every address tried came out of a resolution of this run, and had the source's time limit.\<close>

definition tried_resolved :: "'s rr_event list \<Rightarrow> bool" where
  "tried_resolved tr \<longleftrightarrow>
     (\<forall>d a r. Tried d a r \<in> set tr \<longrightarrow>
        d = CONNECT_TIMEOUT \<and> (\<exists>t xs. Resolved t (Ok xs) \<in> set tr \<and> a \<in> set xs))"

lemma tried_resolved_append: "tried_resolved xs \<Longrightarrow> tried_resolved ys \<Longrightarrow> tried_resolved (xs @ ys)"
  unfolding tried_resolved_def by (metis Un_iff set_append)

lemma attempt_tried: "attempt_trace t tr r \<Longrightarrow> tried_resolved tr"
  unfolding tried_resolved_def using attempt_trace_facts by blast

lemma up_check_tried: "up_check t pre \<Longrightarrow> tried_resolved pre"
  unfolding tried_resolved_def using up_check_facts(8) by blast

lemma scan_trace_tried: "scan_trace ts cooling tr r \<Longrightarrow> tried_resolved tr"
proof (induction rule: scan_trace.induct)
  case (drained rest cooling tr res t)
  then show ?case unfolding tried_resolved_def by (metis list.set_intros(2) rr_event.distinct(5) set_ConsD)
next
  case (cools now until rest cooling t tr res)
  then show ?case using tried_resolved_append [of "[GotStatus t (Ok (Alive (Some until))), ReadClock now]" tr]
    by (simp add: tried_resolved_def)
qed (auto intro: tried_resolved_append attempt_tried up_check_tried, auto simp: tried_resolved_def)

lemma backend_trace_tried:
  assumes "backend_trace p order tr r"
  shows "tried_resolved tr"
proof -
  have cool: "cooling_trace p ts tr' r \<Longrightarrow> tried_resolved tr'" for ts tr'
    by (induction rule: cooling_trace.induct)
      (auto intro: tried_resolved_append attempt_tried simp: tried_resolved_def [of "[]"])
  from assms show ?thesis
    by (cases rule: backend_trace.cases) (auto intro: scan_trace_tried cool tried_resolved_append)
qed

end
