(* ===== verification/RR_Properties.thy ===== *)
theory RR_Properties
  imports Round_Robin
begin

text \<open>
  What the balancer of \<open>src/balancer/roundrobin.rs\<close> guarantees. The first section is about one call
  of \<open>connect_backend\<close> in any world, in terms of the calls it makes (its trace); the second about
  the counters over many calls; the third gives the result of a call in closed form when the
  answers of the resolver, the network and the cooldown handler do not change during it.
\<close>

section \<open>A world for the witnesses\<close>

text \<open>
  Three backends: the first cooling, the second up but not resolvable, the third up with one
  refusing address and one good one. The world is the clock.
\<close>

definition demo_status :: "string \<Rightarrow> proxy_error + backend_status" where
  "demo_status t =
     (if t = ''b0'' then Ok (Alive (Some 100)) else if t = ''b9'' then Ok Drain else Ok (Alive None))"

definition demo_lookup :: "string \<Rightarrow> proxy_error + socket_addr list" where
  "demo_lookup t =
     (if t = ''b1'' then Err (DnsTransientError ''timeout'')
      else Ok [SocketAddr (V4 10 0 0 1) 1 0, SocketAddr (V4 10 0 0 2) 1 0])"

definition demo_connect :: "socket_addr \<Rightarrow> (proxy_error + string) option" where
  "demo_connect a = (if a = SocketAddr (V4 10 0 0 2) 1 0 then Some (Ok ''s'') else None)"

definition demo_deps :: "(instant, string) rr_deps" where
  "demo_deps =
     \<lparr>lookup_host = (\<lambda>t w. (demo_lookup t, w + 1)),
      connect_within = (\<lambda>d a w. (demo_connect a, w + 1)),
      get_target_status = (\<lambda>t w. (demo_status t, w)),
      report_connection_attempt = (\<lambda>t r w. (Ok (), w)),
      instant_now = (\<lambda>w. (w, w))\<rparr>"

definition demo_config :: proxy_config where
  "demo_config = \<lparr>target_pools = [[''b0'', ''b1'', ''b2''], [''b9'', ''b1'']],
                 port_to_pool = [(80, 0), (81, 1)]\<rparr>"

definition demo_trace :: "string rr_event list" where
  "demo_trace =
     [GotStatus ''b0'' (Ok (Alive (Some 100))), ReadClock 7,
      GotStatus ''b1'' (Ok (Alive None)), Resolved ''b1'' (demo_lookup ''b1''), Reported ''b1'' Failure,
      GotStatus ''b2'' (Ok (Alive None)), Resolved ''b2'' (demo_lookup ''b2''),
      Tried CONNECT_TIMEOUT (SocketAddr (V4 10 0 0 1) 1 0) None,
      Tried CONNECT_TIMEOUT (SocketAddr (V4 10 0 0 2) 1 0) (Some (Ok ''s'')),
      Reported ''b2'' Success]"

lemma demo_run:
  "connect_backend (traced demo_deps) 80 (rr_new demo_config) (7, []) =
     (Ok (''s'', SocketAddr (V4 10 0 0 2) 1 0), bump_counter (rr_new demo_config) 80, (11, demo_trace))"
  by (simp add: connect_backend_def rr_new_def demo_config_def get_pool_def ports_def rr_order_def
      traced_def demo_deps_def demo_status_def demo_lookup_def demo_connect_def connect_def
      demo_trace_def bump_counter_def upt_rec)

definition demo_trace_fail :: "string rr_event list" where
  "demo_trace_fail =
     [GotStatus ''b9'' (Ok Drain), GotStatus ''b1'' (Ok (Alive None)),
      Resolved ''b1'' (demo_lookup ''b1''), Reported ''b1'' Failure]"

lemma demo_run_fail:
  "connect_backend (traced demo_deps) 81 (rr_new demo_config) (7, []) =
     (Err (unable_to_connect 81), bump_counter (rr_new demo_config) 81, (8, demo_trace_fail))"
  by (simp add: connect_backend_def rr_new_def demo_config_def get_pool_def ports_def rr_order_def
      traced_def demo_deps_def demo_status_def demo_lookup_def connect_def
      demo_trace_fail_def bump_counter_def upt_rec)

lemma demo_visit_order [simp]:
  "visit_order (rr_new demo_config) 80 = [''b0'', ''b1'', ''b2'']"
  "visit_order (rr_new demo_config) 81 = [''b9'', ''b1'']"
  by (simp_all add: visit_order_def rr_new_def demo_config_def get_pool_def ports_def)

lemma demo_balancer:
  "get_pool (rr_config (rr_new demo_config)) 80 = Some [''b0'', ''b1'', ''b2'']"
  "port_to_rr_counter (rr_new demo_config) 80 = Some 0"
  by (simp_all add: rr_new_def demo_config_def get_pool_def ports_def)

section \<open>One call\<close>

text \<open>The facts of a recorded call that the properties below share.\<close>

lemma traced_run_facts:
  assumes "connect_backend (traced D) port self (w, []) = (res, self', (w', tr))"
  shows "(backend_trace port (visit_order self port) tr res \<and> self' = bump_counter self port)
    \<or> (tr = [] \<and> self' = self \<and> (\<exists>e \<in> {no_targets port, empty_backends port, no_counter port}.
         res = Err e))"
  using connect_backend_traced [OF assms] by auto


text \<open>
  C18: a call checks the targets of its port one after the other in round-robin order, each at most
  once: the targets it checks are the first ones of the pool rotated by the counter.
\<close>

theorem checks_in_round_robin_order:
  assumes "connect_backend (traced D) port self (w, []) = (res, self', (w', tr))"
  shows "\<exists>k. status_checks tr = take k (visit_order self port)"
  using traced_run_facts [OF assms] backend_trace_facts [of port "visit_order self port" tr res]
  by (metis reading_Nil(1) take0)

theorem checks_in_round_robin_order_witness:
  "\<exists>k. status_checks demo_trace = take k [''b0'', ''b1'', ''b2'']"
  using checks_in_round_robin_order [OF demo_run] by simp

text \<open>
  C3: connections are attempted first to the targets found up, in the order they were checked, and
  then to targets found cooling, in that order too, and to those only after every target of the
  pool has been checked.
\<close>

theorem cooling_targets_last:
  assumes "connect_backend (traced D) port self (w, []) = (res, self', (w', tr))"
  shows "\<exists>k. resolutions tr = up_checked tr @ take k (cooling_checked tr)
    \<and> (take k (cooling_checked tr) \<noteq> [] \<longrightarrow> status_checks tr = visit_order self port)"
  using traced_run_facts [OF assms]
proof (elim disjE conjE)
  assume "tr = []"
  then show ?thesis by (intro exI [of _ 0]) simp
next
  assume "backend_trace port (visit_order self port) tr res"
  from backend_trace_facts [OF this] show ?thesis by blast
qed

theorem cooling_targets_last_witness:
  "\<exists>k. resolutions demo_trace = [''b1'', ''b2''] @ take k [''b0'']"
  using cooling_targets_last [OF demo_run] by (simp add: demo_trace_def)

text \<open>
  C12: no connection is attempted to a drained backend: before a target is resolved, its status was
  read in this call and was not \<open>Drain\<close>.
\<close>

theorem drained_never_contacted:
  assumes "connect_backend (traced D) port self (w, []) = (res, self', (w', tr))"
    and "tr = before @ Resolved t h # after"
  shows "\<exists>s. GotStatus t (Ok s) \<in> set before \<and> s \<noteq> Drain"
proof -
  from assms have "cleared {} tr"
    using traced_run_facts [OF assms(1)] backend_trace_cleared by auto
  with assms(2) show ?thesis using cleared_split [of before t h after] by (simp add: cleared_by_def)
qed

theorem drained_never_contacted_witness:
  "\<exists>s. GotStatus ''b1'' (Ok s) \<in> set [GotStatus ''b9'' (Ok Drain), GotStatus ''b1'' (Ok (Alive None))
        :: string rr_event] \<and> s \<noteq> Drain"
  using drained_never_contacted [OF demo_run_fail,
      of "[GotStatus ''b9'' (Ok Drain), GotStatus ''b1'' (Ok (Alive None))]" "''b1''"
         "demo_lookup ''b1''" "[Reported ''b1'' Failure]"]
  by (simp add: demo_trace_fail_def)

text \<open>
  C13: a call opens at most one stream to a backend, and it is the one it returns: on success
  exactly the returned stream and address, on an error none. On success every target tried before
  was reported as a failure and the last one as a success.
\<close>

theorem one_stream_per_call:
  assumes "connect_backend (traced D) port self (w, []) = (res, self', (w', tr))"
  shows "connections tr = (case res of Ok c \<Rightarrow> [c] | Err e \<Rightarrow> [])
    \<and> (\<forall>c. res = Ok c \<longrightarrow>
         (\<exists>ts t. resolutions tr = ts @ [t] \<and> reports tr = map (\<lambda>t. (t, Failure)) ts @ [(t, Success)]))"
  using traced_run_facts [OF assms]
proof (elim disjE conjE)
  assume "backend_trace port (visit_order self port) tr res"
  from backend_trace_facts [OF this] show ?thesis by (cases res) auto
qed auto

theorem one_stream_per_call_witness:
  "connections demo_trace = [(''s'', SocketAddr (V4 10 0 0 2) 1 0)]"
  using one_stream_per_call [OF demo_run] by simp

text \<open>
  C14: the errors of a call: one of the three about the configuration, before any backend is touched;
  the error of a failed status lookup or of a resolution that failed for another reason than the
  DNS, passed on as it is; or that no backend could be reached, which is said only after every
  target has been checked, every one that is not drained has been tried, and each was reported as a
  failure.
\<close>

theorem connect_backend_errors:
  assumes "connect_backend (traced D) port self (w, []) = (Err e, self', (w', tr))"
  shows "(tr = [] \<and> self' = self \<and> e \<in> {no_targets port, empty_backends port, no_counter port})
    \<or> (\<exists>t. GotStatus t (Err e) \<in> set tr)
    \<or> (\<exists>t. Resolved t (Err e) \<in> set tr \<and> \<not> is_dns_error e)
    \<or> (e = unable_to_connect port \<and> status_checks tr = visit_order self port
        \<and> resolutions tr = up_checked tr @ cooling_checked tr
        \<and> reports tr = map (\<lambda>t. (t, Failure)) (resolutions tr))"
  using traced_run_facts [OF assms]
proof (elim disjE conjE)
  assume "backend_trace port (visit_order self port) tr (Err e)"
  from backend_trace_facts [OF this] show ?thesis by auto
qed auto

theorem connect_backend_errors_witness:
  "status_checks demo_trace_fail = [''b9'', ''b1''] \<and> resolutions demo_trace_fail = [''b1'']
   \<and> reports demo_trace_fail = [(''b1'', Failure)]"
  using connect_backend_errors [OF demo_run_fail]
  by (auto simp: demo_trace_fail_def demo_lookup_def)

text \<open>
  C15: every address a call tries to connect to is one that a target of this call resolved to, and
  the attempt is bounded by five seconds.
\<close>

theorem attempts_bounded_and_resolved:
  assumes "connect_backend (traced D) port self (w, []) = (res, self', (w', tr))"
    and "Tried d a r \<in> set tr"
  shows "d = from_secs 5 \<and> (\<exists>t xs. Resolved t (Ok xs) \<in> set tr \<and> a \<in> set xs)"
proof -
  from assms have "tried_resolved tr"
    using traced_run_facts [OF assms(1)] backend_trace_tried by auto
  with assms(2) show ?thesis unfolding tried_resolved_def CONNECT_TIMEOUT_def by blast
qed

theorem attempts_bounded_and_resolved_witness:
  "CONNECT_TIMEOUT = from_secs 5 \<and> (\<exists>t xs. Resolved t (Ok xs) \<in> set demo_trace
      \<and> SocketAddr (V4 10 0 0 1) 1 0 \<in> set xs)"
  using attempts_bounded_and_resolved [OF demo_run,
      of CONNECT_TIMEOUT "SocketAddr (V4 10 0 0 1) 1 0" None]
  by (simp add: demo_trace_def)

section \<open>The counters\<close>

lemma connect_backend_self_eq:
  "fst (snd (connect_backend D port self w)) =
     (if get_pool (rr_config self) port \<in> {None, Some []} then self else bump_counter self port)"
proof (cases "get_pool (rr_config self) port")
  case (Some backends)
  show ?thesis
  proof (cases "backends = [] \<or> port_to_rr_counter self port = None")
    case True
    with Some show ?thesis by (auto simp: connect_backend_def bump_counter_def fun_upd_idem)
  next
    case False
    with Some obtain c where "port_to_rr_counter self port = Some c" by auto
    with Some False show ?thesis
      by (simp add: connect_backend_run split: prod.splits scan_result.splits)
  qed
qed (simp add: connect_backend_def)

text \<open>Calls on any ports, one after the other.\<close>

fun run_calls ::
  "('w, 's) rr_deps \<Rightarrow> u16 list \<Rightarrow> rr_balancer \<Rightarrow> 'w \<Rightarrow> rr_balancer \<times> 'w" where
  "run_calls D [] self w = (self, w)"
| "run_calls D (p # ps) self w =
     (case connect_backend D p self w of (_, self', w') \<Rightarrow> run_calls D ps self' w')"

lemma connect_backend_self:
  assumes "connect_backend D p self w = (res, self', w')"
  shows "rr_config self' = rr_config self"
    "port_to_rr_counter self' q =
       (if q = p \<and> get_pool (rr_config self) p \<notin> {None, Some []}
        then map_option (\<lambda>c. c + 1) (port_to_rr_counter self p) else port_to_rr_counter self q)"
proof -
  have "self' = (if get_pool (rr_config self) p \<in> {None, Some []} then self else bump_counter self p)"
    using connect_backend_self_eq [of D p self w] assms by simp
  then show "rr_config self' = rr_config self"
    "port_to_rr_counter self' q =
       (if q = p \<and> get_pool (rr_config self) p \<notin> {None, Some []}
        then map_option (\<lambda>c. c + 1) (port_to_rr_counter self p) else port_to_rr_counter self q)"
    by (auto simp: bump_counter_def)
qed

lemma run_calls_config: "rr_config (fst (run_calls D ps self w)) = rr_config self"
  by (induction ps arbitrary: self w) (auto split: prod.splits dest: connect_backend_self(1))

lemma run_calls_counter:
  assumes "get_pool (rr_config self) p = Some backends" "backends \<noteq> []"
  shows "port_to_rr_counter (fst (run_calls D ps self w)) p =
           map_option (\<lambda>c. c + word_of_nat (count_list ps p)) (port_to_rr_counter self p)"
  using assms
proof (induction ps arbitrary: self w)
  case Nil
  then show ?case by (cases "port_to_rr_counter self p") simp_all
next
  case (Cons q ps)
  obtain res self' w' where call: "connect_backend D q self w = (res, self', w')"
    by (metis prod_cases3)
  have "get_pool (rr_config self') p = Some backends"
    using Cons.prems connect_backend_self(1) [OF call] by simp
  note IH = Cons.IH [OF this Cons.prems(2), of w']
  show ?case
    using IH call Cons.prems connect_backend_self(2) [OF call, of p]
    by (cases "port_to_rr_counter self p") (auto simp: add.assoc)
qed

lemma run_calls_visit_order:
  assumes "get_pool (rr_config self) p = Some backends" "backends \<noteq> []"
    "port_to_rr_counter self p = Some counter" "unat counter + count_list ps p < 2 ^ 64"
  shows "visit_order (fst (run_calls D ps self w)) p =
           rotate (unat counter + count_list ps p) backends"
proof -
  have "unat (counter + word_of_nat (count_list ps p)) = unat counter + count_list ps p"
    using assms(4) by (simp add: unat_word_ariths unat_of_nat)
  then show ?thesis
    using assms run_calls_counter [OF assms(1,2), of D ps w] run_calls_config [of D ps self w]
    by (simp add: visit_order_def flip: rotate_conv_mod)
qed



text \<open>
  Round robin is fair: over as many consecutive calls on a port as it has backends, each backend
  of the pool is the first choice exactly once, in the order of the pool from the counter on.
\<close>

theorem each_backend_first_once:
  assumes "get_pool (rr_config self) p = Some backends" "backends \<noteq> []"
    "port_to_rr_counter self p = Some counter" "unat counter + length backends \<le> 2 ^ 64"
  shows "map (\<lambda>k. hd (visit_order (fst (run_calls D (replicate k p) self w)) p)) [0..<length backends]
           = rotate (unat counter mod length backends) backends"
proof (rule nth_equalityI)
  fix k
  assume "k < length (map (\<lambda>k. hd (visit_order (fst (run_calls D (replicate k p) self w)) p))
      [0..<length backends])"
  then have k: "k < length backends" by simp
  have count: "count_list (replicate k p) p = k" by (induction k) simp_all
  have "visit_order (fst (run_calls D (replicate k p) self w)) p = rotate (unat counter + k) backends"
    using run_calls_visit_order [OF assms(1-3), of "replicate k p" D w] assms(4) k count by simp
  with k assms(2) show "map (\<lambda>k. hd (visit_order (fst (run_calls D (replicate k p) self w)) p))
      [0..<length backends] ! k = rotate (unat counter mod length backends) backends ! k"
    by (simp add: hd_rotate_conv_nth nth_rotate mod_simps flip: rotate_conv_mod)
qed simp

theorem each_backend_first_once_witness:
  "map (\<lambda>k. hd (visit_order (fst (run_calls demo_deps (replicate k 80) (rr_new demo_config) 0)) 80))
     [0..<3] = [''b0'', ''b1'', ''b2'']"
proof -
  let ?pool = "[''b0'', ''b1'', ''b2'']"
  have len: "length ?pool = 3" by simp
  have "map (\<lambda>k. hd (visit_order (fst (run_calls demo_deps (replicate k 80) (rr_new demo_config) 0))
      80)) [0..<length ?pool] = rotate (unat (0 :: usize) mod length ?pool) ?pool"
    by (rule each_backend_first_once [OF demo_balancer(1) _ demo_balancer(2)]) simp_all
  then show ?thesis by (simp only: len unsigned_0 mod_0 rotate0 id_apply)
qed

text \<open>
  The index arithmetic at the width of \<open>usize\<close> neither overflows nor leaves the pool: for a pool
  of at most \<open>2 ^ 63\<close> targets (more than a \<open>Vec\<close> can hold) it computes the number that the model uses.
\<close>

theorem rr_index_in_bounds:
  assumes "0 < n" "n \<le> 2 ^ 63" "i < n"
  shows "unat (rr_index counter n i) = (unat counter mod n + i) mod n
       \<and> unat (rr_index counter n i) < n"
proof -
  have n: "unat (word_of_nat n :: usize) = n" and i: "unat (word_of_nat i :: usize) = i"
    using assms by (simp_all add: unat_of_nat)
  have "n \<le> 9223372036854775808" using assms(2) by simp
  moreover have "unat counter mod n < n" using assms(1) by simp
  ultimately have "unat counter mod n + i < 18446744073709551616" using assms(3) by linarith
  then have "unat (counter mod word_of_nat n + word_of_nat i) = unat counter mod n + i"
    by (simp add: unat_word_ariths unat_mod_distrib n i)
  then show ?thesis using assms(1) by (simp add: rr_index_def Let_def unat_mod_distrib n)
qed

theorem rr_index_in_bounds_witness: "unat (rr_index 7 3 2) = 0 \<and> unat (rr_index 7 3 2) < 3"
  using rr_index_in_bounds [of 3 2 7] by simp

text \<open>
  Where the counter wraps around the rotation goes on without a jump exactly if the size of the
  pool divides \<open>2 ^ 64\<close>: after the call with the largest counter the next call starts at the first
  backend, whatever the last one started at.
\<close>

theorem wraparound_start:
  assumes "get_pool (rr_config self) p = Some backends" "backends \<noteq> []"
    "port_to_rr_counter self p = Some (- 1)"
  shows "visit_order (fst (snd (connect_backend D p self w))) p = backends
    \<and> ((unat (- 1 :: usize) mod length backends + 1) mod length backends = 0
         \<longleftrightarrow> length backends dvd 2 ^ 64)"
proof -
  have "port_to_rr_counter (fst (snd (connect_backend D p self w))) p = Some 0"
    using assms by (simp add: connect_backend_self_eq bump_counter_def)
  moreover have "rr_config (fst (snd (connect_backend D p self w))) = rr_config self"
    by (simp add: connect_backend_self_eq bump_counter_def)
  ultimately have "visit_order (fst (snd (connect_backend D p self w))) p = backends"
    using assms by (simp add: visit_order_def)
  moreover have "unat (- 1 :: usize) + 1 = 2 ^ 64" by (simp add: unsigned_minus_1_eq_mask mask_eq_exp_minus_1)
  then have "(unat (- 1 :: usize) mod length backends + 1) mod length backends
      = 2 ^ 64 mod length backends"
    by (metis mod_add_left_eq)
  ultimately show ?thesis by (simp add: mod_eq_0_iff_dvd)
qed

definition worn_balancer :: rr_balancer where
  "worn_balancer = (rr_new demo_config)\<lparr>port_to_rr_counter := [80 \<mapsto> - 1]\<rparr>"

theorem wraparound_start_witness:
  "visit_order (fst (snd (connect_backend demo_deps 80 worn_balancer 0))) 80 = [''b0'', ''b1'', ''b2'']
   \<and> \<not> (3 :: nat) dvd 2 ^ 64"
proof -
  have "get_pool (rr_config worn_balancer) 80 = Some [''b0'', ''b1'', ''b2'']"
    "port_to_rr_counter worn_balancer 80 = Some (- 1)"
    using demo_balancer(1) by (simp_all add: worn_balancer_def)
  from wraparound_start [OF this(1) _ this(2), of demo_deps 0] show ?thesis by simp
qed

lemma rr_new_counter:
  "port_to_rr_counter (rr_new cfg) p = (if p \<in> set (ports cfg) then Some 0 else None)"
proof -
  have "fold (\<lambda>port counters. counters(port \<mapsto> 0)) ps m p = (if p \<in> set ps then Some 0 else m p)"
    for ps and m :: "u16 \<rightharpoonup> usize"
    by (induction ps arbitrary: m) auto
  then show ?thesis by (simp add: rr_new_def)
qed

text \<open>
  C21: in a balancer built from an accepted configuration every port with backends has a counter,
  which after any calls on any ports is the number of calls on that port modulo \<open>2 ^ 64\<close>; so the
  error about a missing counter never occurs.
\<close>

theorem counters_never_missing:
  assumes "proxy_config_try_from raw = Ok cfg" "get_pool cfg p = Some backends" "backends \<noteq> []"
  shows "port_to_rr_counter (fst (run_calls D ps (rr_new cfg) w)) p
           = Some (word_of_nat (count_list ps p))"
proof -
  have "p \<in> set (ports cfg)" using assms by (simp add: ports_get_pool)
  moreover have "get_pool (rr_config (rr_new cfg)) p = Some backends"
    using assms(2) by (simp add: rr_new_def)
  ultimately show ?thesis
    using run_calls_counter [of "rr_new cfg" p backends D ps w] assms(3) by (simp add: rr_new_counter)
qed

theorem counters_never_missing_witness:
  "port_to_rr_counter (fst (run_calls demo_deps [5003, 5001, 5003] (rr_new sample_config) 0)) 5003
     = Some 2"
proof -
  have "get_pool sample_config 5003 = Some [''b2:2'']"
    by (simp add: get_pool_def sample_config_def)
  moreover have "count_list [5003, 5001, 5003 :: u16] 5003 = 2" by simp
  ultimately show ?thesis
    using counters_never_missing [OF sample_config_ok, of 5003 "[''b2:2'']" demo_deps
        "[5003, 5001, 5003]" 0]
    by (simp only: list.distinct not_False_eq_True simp_thms) simp
qed

section \<open>The result in closed form\<close>

text \<open>
  A world whose answers depend on the question only, for the time of a call: statuses \<open>st\<close>, name
  resolution \<open>rs\<close>, connection outcomes \<open>cn\<close>, and a clock that stands at \<open>now\<close>.
\<close>

definition steady ::
  "('w, 's) rr_deps \<Rightarrow> (string \<Rightarrow> proxy_error + backend_status)
   \<Rightarrow> (string \<Rightarrow> proxy_error + socket_addr list) \<Rightarrow> (socket_addr \<Rightarrow> (proxy_error + 's) option)
   \<Rightarrow> instant \<Rightarrow> bool" where
  "steady D st rs cn now \<longleftrightarrow>
     (\<forall>t w. fst (get_target_status D t w) = st t) \<and> (\<forall>t w. fst (lookup_host D t w) = rs t)
     \<and> (\<forall>d a w. fst (connect_within D d a w) = cn a) \<and> (\<forall>w. fst (instant_now D w) = now)"

fun first_connected ::
  "(socket_addr \<Rightarrow> (proxy_error + 's) option) \<Rightarrow> socket_addr list \<Rightarrow> ('s \<times> socket_addr) option" where
  "first_connected cn [] = None"
| "first_connected cn (a # rest) =
     (case cn a of Some (Ok s) \<Rightarrow> Some (s, a) | _ \<Rightarrow> first_connected cn rest)"

definition attempt_result ::
  "(string \<Rightarrow> proxy_error + socket_addr list) \<Rightarrow> (socket_addr \<Rightarrow> (proxy_error + 's) option)
   \<Rightarrow> string \<Rightarrow> ('s \<times> socket_addr) connect_attempt" where
  "attempt_result rs cn t =
     (case rs t of
        Err e \<Rightarrow> if is_dns_error e then TryNext else Fatal e
      | Ok xs \<Rightarrow> (case first_connected cn xs of Some c \<Rightarrow> Ready c | None \<Rightarrow> TryNext))"

fun first_decisive :: "'a connect_attempt list \<Rightarrow> 'a connect_attempt" where
  "first_decisive [] = TryNext"
| "first_decisive (TryNext # rest) = first_decisive rest"
| "first_decisive (r # rest) = r"

lemma first_decisive_append:
  "first_decisive (xs @ ys) = (case first_decisive xs of TryNext \<Rightarrow> first_decisive ys | r \<Rightarrow> r)"
  by (induction xs rule: first_decisive.induct) simp_all

fun decided :: "u16 \<Rightarrow> ('s \<times> socket_addr) connect_attempt \<Rightarrow> proxy_error + 's \<times> socket_addr" where
  "decided port (Ready c) = Ok c"
| "decided port (Fatal e) = Err e"
| "decided port TryNext = Err (unable_to_connect port)"

definition targets_up :: "(string \<Rightarrow> proxy_error + backend_status) \<Rightarrow> instant \<Rightarrow> string list \<Rightarrow> string list" where
  "targets_up st now ts =
     filter (\<lambda>t. case st t of Ok s \<Rightarrow> health_at now s = Up | Err _ \<Rightarrow> False) ts"

definition targets_cooling ::
  "(string \<Rightarrow> proxy_error + backend_status) \<Rightarrow> instant \<Rightarrow> string list \<Rightarrow> string list" where
  "targets_cooling st now ts =
     filter (\<lambda>t. case st t of
               Ok s \<Rightarrow> (case health_at now s of Cooling _ \<Rightarrow> True | _ \<Rightarrow> False) | Err _ \<Rightarrow> False) ts"

lemma targets_up_cooling_Nil [simp]: "targets_up st now [] = []" "targets_cooling st now [] = []"
  by (simp_all add: targets_up_def targets_cooling_def)

lemma targets_up_cooling_Cons:
  assumes "st t = Ok s"
  shows "targets_up st now (t # ts)
           = (case health_at now s of Up \<Rightarrow> t # targets_up st now ts | _ \<Rightarrow> targets_up st now ts)"
    and "targets_cooling st now (t # ts)
           = (case health_at now s of
                Cooling _ \<Rightarrow> t # targets_cooling st now ts | _ \<Rightarrow> targets_cooling st now ts)"
  using assms by (simp_all add: targets_up_def targets_cooling_def split: health.split)

lemma connect_addrs_steady:
  assumes "steady D st rs cn now"
  shows "fst (connect_addrs D t xs w) =
    (case first_connected cn xs of Some c \<Rightarrow> Ready c | None \<Rightarrow> TryNext)"
proof (induction xs arbitrary: w)
  case Nil
  then show ?case by (simp add: split_def)
next
  case (Cons a xs)
  have "fst (connect_within D CONNECT_TIMEOUT a w) = cn a" using assms by (simp add: steady_def)
  with Cons.IH show ?case
    by (auto simp: split_def split: prod.splits option.splits sum.splits)
qed

lemma connect_steady:
  assumes "steady D st rs cn now"
  shows "fst (connect D t w) = attempt_result rs cn t"
proof -
  obtain h w1 where h: "lookup_host D t w = (h, w1)" by fastforce
  then have "rs t = h" using assms by (metis fst_conv steady_def)
  with h show ?thesis
    using connect_addrs_steady [OF assms, of t _ w1]
    by (cases h)
      (auto simp: connect_def attempt_result_def split_def split: proxy_error.splits)
qed

lemma scan_targets_steady:
  assumes "steady D st rs cn now" "\<forall>t \<in> set ts. \<not> is_err (st t)"
  shows "fst (scan_targets D ts cooling w) =
    (case first_decisive (map (attempt_result rs cn) (targets_up st now ts)) of
       Ready c \<Rightarrow> Return (Ok c) | Fatal e \<Rightarrow> Return (Err e)
     | TryNext \<Rightarrow> Exhausted (cooling @ targets_cooling st now ts))"
  using assms(2)
proof (induction ts arbitrary: cooling w)
  case Nil
  then show ?case by (simp add: targets_up_def targets_cooling_def)
next
  case (Cons t ts)
  obtain r w1 where g: "get_target_status D t w = (r, w1)" by fastforce
  with assms(1) have "st t = r" by (metis fst_conv steady_def)
  with Cons.prems obtain s where s: "st t = Ok s" "r = Ok s" by (cases r) auto
  have up: "fst (case connect D t v of (Ready s, w3) \<Rightarrow> (Return (Ok s), w3)
        | (TryNext, w3) \<Rightarrow> scan_targets D ts cooling w3 | (Fatal e, w3) \<Rightarrow> (Return (Err e), w3))
      = (case first_decisive (map (attempt_result rs cn) (t # targets_up st now ts)) of
           Ready c \<Rightarrow> Return (Ok c) | Fatal e \<Rightarrow> Return (Err e)
         | TryNext \<Rightarrow> Exhausted (cooling @ targets_cooling st now ts))" for v
  proof -
    obtain c w3 where c: "connect D t v = (c, w3)" by fastforce
    then have "attempt_result rs cn t = c" using connect_steady [OF assms(1), of t v] by simp
    with c Cons.IH Cons.prems show ?thesis by (cases c) simp_all
  qed
  note cons = targets_up_cooling_Cons [where st = st, OF s(1)]
  show ?case
  proof (cases s)
    case Drain
    with g s Cons show ?thesis by (simp add: cons split: connect_attempt.split)
  next
    case (Alive cool)
    show ?thesis
    proof (cases cool)
      case None
      with g s Alive up [of w1] show ?thesis by (simp add: cons split: connect_attempt.split)
    next
      case (Some until)
      obtain n w2 where n: "instant_now D w1 = (n, w2)" by fastforce
      with assms(1) have "n = now" by (metis fst_conv steady_def)
      with g s Alive Some n up [of w2] Cons show ?thesis by (simp add: cons split: connect_attempt.split)
    qed
  qed
qed

lemma try_cooling_steady:
  assumes "steady D st rs cn now"
  shows "fst (try_cooling D port ts w) = decided port (first_decisive (map (attempt_result rs cn) ts))"
proof (induction ts arbitrary: w)
  case (Cons t ts)
  obtain c w1 where c: "connect D t w = (c, w1)" by fastforce
  then have "attempt_result rs cn t = c" using connect_steady [OF assms, of t w] by simp
  with c Cons.IH show ?case by (cases c) simp_all
qed simp

text \<open>
  C2: when the answers do not change during a call, its result is that of the first decisive
  attempt over the targets that are up, then those that are cooling, both in round-robin order;
  drained targets are left out, and with no decisive attempt no backend could be reached.
\<close>

theorem connect_backend_closed_form:
  assumes "steady D st rs cn now"
    and "get_pool (rr_config self) port = Some backends" "backends \<noteq> []"
    and "port_to_rr_counter self port = Some counter" "\<forall>t \<in> set backends. \<not> is_err (st t)"
  shows "fst (connect_backend D port self w) =
    (let order = rotate (unat counter mod length backends) backends
     in decided port (first_decisive (map (attempt_result rs cn)
          (targets_up st now order @ targets_cooling st now order))))"
proof -
  let ?order = "visit_order self port"
  have order: "?order = rotate (unat counter mod length backends) backends"
    using assms by (simp add: visit_order_def)
  with assms(5) have "\<forall>t \<in> set ?order. \<not> is_err (st t)" by simp
  from scan_targets_steady [OF assms(1) this, of "[]" w]
  show ?thesis
    using try_cooling_steady [OF assms(1), of port "targets_cooling st now ?order"]
    by (auto simp: connect_backend_run [OF assms(2-4)] first_decisive_append split_def Let_def
        simp flip: order split: prod.splits scan_result.splits connect_attempt.splits)
qed

definition noon_deps :: "(instant, string) rr_deps" where
  "noon_deps = demo_deps\<lparr>instant_now := \<lambda>w. (12, w)\<rparr>"

theorem connect_backend_closed_form_witness:
  "fst (connect_backend noon_deps 80 (rr_new demo_config) 0)
     = Ok (''s'', SocketAddr (V4 10 0 0 2) 1 0)"
proof -
  have "steady noon_deps demo_status demo_lookup demo_connect 12"
    by (simp add: steady_def noon_deps_def demo_deps_def)
  moreover have "\<forall>t \<in> set [''b0'', ''b1'', ''b2'']. \<not> is_err (demo_status t)"
    by (simp add: demo_status_def)
  ultimately have "fst (connect_backend noon_deps 80 (rr_new demo_config) 0)
      = decided 80 (first_decisive (map (attempt_result demo_lookup demo_connect)
          (targets_up demo_status 12 [''b0'', ''b1'', ''b2'']
             @ targets_cooling demo_status 12 [''b0'', ''b1'', ''b2''])))"
    using connect_backend_closed_form [of noon_deps demo_status demo_lookup demo_connect 12
        "rr_new demo_config" 80 "[''b0'', ''b1'', ''b2'']" 0 0] demo_balancer by (simp add: Let_def)
  then show ?thesis
    by (simp add: targets_up_def targets_cooling_def demo_status_def attempt_result_def
        demo_lookup_def demo_connect_def)
qed

end
