(* ===== verification/Runtime.thy ===== *)
theory Runtime
  imports Prelude
begin

text \<open>
  The parts of tokio the server rests on: \<open>tokio::sync::Semaphore\<close> and
  \<open>tokio_util::sync::CancellationToken\<close>. Both are outside the repository, so the model takes their
  operations as dictionaries and what the code relies on as the laws of a locale, which state the
  documented behaviour. A counting semaphore with a first-in first-out queue of waiters and a flag
  are the concrete instances the witnesses use.
\<close>

section \<open>Semaphores\<close>

text \<open>
  \<open>sem_new\<close> is \<open>Semaphore::const_new\<close>, \<open>None\<close> when it panics. \<open>sem_try_acquire\<close> is
  \<open>try_acquire_owned\<close>, \<open>None\<close> when it gives no permit. \<open>sem_acquire\<close> is the first poll of
  \<open>acquire_owned\<close> by the waiter with the given number; \<open>sem_release\<close> the drop of a permit, with the
  waiter it is handed to, if any; \<open>sem_forget\<close> the drop of an \<open>acquire_owned\<close> future that still waits.
\<close>

datatype acquire_poll = AcquireReady | AcquirePending | AcquireClosed

record 'sem semaphore_ops =
  sem_new :: "usize \<Rightarrow> 'sem option"
  sem_try_acquire :: "'sem \<Rightarrow> 'sem option"
  sem_acquire :: "nat \<Rightarrow> 'sem \<Rightarrow> acquire_poll \<times> 'sem"
  sem_release :: "'sem \<Rightarrow> nat option \<times> 'sem"
  sem_forget :: "nat \<Rightarrow> 'sem \<Rightarrow> 'sem"

text \<open>\<open>Semaphore::MAX_PERMITS\<close>, \<open>usize::MAX >> 3\<close>.\<close>

definition MAX_PERMITS :: nat where
  "MAX_PERMITS = 2 ^ 61 - 1"

text \<open>
  The laws, over the number of free permits, the waiters in the order they asked, and a predicate
  for the states a semaphore that is never closed can be in. The queue is fair: while somebody waits
  no permit is free, and a released permit goes to the waiter that asked first.
\<close>

locale semaphore =
  fixes S :: "'sem semaphore_ops"
    and permits :: "'sem \<Rightarrow> nat"
    and waiters :: "'sem \<Rightarrow> nat list"
    and opened :: "'sem \<Rightarrow> bool"
  assumes new_panics: "unat n > MAX_PERMITS \<Longrightarrow> sem_new S n = None"
    and new_permits: "unat n \<le> MAX_PERMITS \<Longrightarrow>
      \<exists>s. sem_new S n = Some s \<and> opened s \<and> permits s = unat n \<and> waiters s = []"
    and fair: "opened s \<Longrightarrow> waiters s \<noteq> [] \<Longrightarrow> permits s = 0"
    and try_acquire_none: "opened s \<Longrightarrow> permits s = 0 \<Longrightarrow> sem_try_acquire S s = None"
    and try_acquire_some: "opened s \<Longrightarrow> permits s > 0 \<Longrightarrow>
      \<exists>s'. sem_try_acquire S s = Some s' \<and> opened s' \<and> permits s = Suc (permits s')
        \<and> waiters s' = waiters s"
    and acquire_ready: "opened s \<Longrightarrow> permits s > 0 \<Longrightarrow>
      \<exists>s'. sem_acquire S i s = (AcquireReady, s') \<and> opened s' \<and> permits s = Suc (permits s')
        \<and> waiters s' = waiters s"
    and acquire_pending: "opened s \<Longrightarrow> permits s = 0 \<Longrightarrow>
      \<exists>s'. sem_acquire S i s = (AcquirePending, s') \<and> opened s' \<and> permits s' = 0
        \<and> waiters s' = waiters s @ [i]"
    and release_free: "opened s \<Longrightarrow> permits s < MAX_PERMITS \<Longrightarrow> waiters s = [] \<Longrightarrow>
      \<exists>s'. sem_release S s = (None, s') \<and> opened s' \<and> permits s' = Suc (permits s) \<and> waiters s' = []"
    and release_hands_over: "opened s \<Longrightarrow> waiters s = i # rest \<Longrightarrow>
      \<exists>s'. sem_release S s = (Some i, s') \<and> opened s' \<and> permits s' = 0 \<and> waiters s' = rest"
    and forget: "opened s \<Longrightarrow>
      opened (sem_forget S i s) \<and> permits (sem_forget S i s) = permits s
        \<and> waiters (sem_forget S i s) = remove1 i (waiters s)"
begin

lemma new_cases:
  "(unat n \<le> MAX_PERMITS \<and> (\<exists>s. sem_new S n = Some s \<and> opened s \<and> permits s = unat n \<and> waiters s = []))
   \<or> (unat n > MAX_PERMITS \<and> sem_new S n = None)"
  using new_panics new_permits by (cases "unat n \<le> MAX_PERMITS") auto

lemma new_SomeD:
  assumes "sem_new S n = Some s"
  shows "opened s" "permits s = unat n" "waiters s = []" "unat n \<le> MAX_PERMITS"
  using new_cases [of n] assms by auto

lemma try_acquire_SomeD:
  assumes "opened s" "sem_try_acquire S s = Some s'"
  shows "opened s'" "permits s = Suc (permits s')" "waiters s' = waiters s" "waiters s = []"
  using assms fair [of s] try_acquire_none [of s] try_acquire_some [of s] by (cases "permits s"; fastforce)+

lemma try_acquire_NoneD:
  assumes "opened s" "sem_try_acquire S s = None"
  shows "permits s = 0"
  using assms try_acquire_some [of s] by (cases "permits s") auto

lemma acquire_ReadyD:
  assumes "opened s" "sem_acquire S i s = (AcquireReady, s')"
  shows "opened s'" "permits s = Suc (permits s')" "waiters s' = waiters s" "waiters s = []"
  using assms fair [of s] acquire_pending [of s i] acquire_ready [of s i]
  by (cases "permits s"; fastforce)+

lemma acquire_PendingD:
  assumes "opened s" "sem_acquire S i s = (AcquirePending, s')"
  shows "opened s'" "permits s = 0" "permits s' = 0" "waiters s' = waiters s @ [i]"
  using assms acquire_pending [of s i] acquire_ready [of s i] by (cases "permits s"; fastforce)+

lemma acquire_not_closed:
  assumes "opened s"
  shows "sem_acquire S i s \<noteq> (AcquireClosed, s')"
  using assms acquire_pending [of s i] acquire_ready [of s i] by (cases "permits s") auto

lemma release_NoneD:
  assumes "opened s" "permits s < MAX_PERMITS" "sem_release S s = (None, s')"
  shows "opened s'" "permits s' = Suc (permits s)" "waiters s = []" "waiters s' = []"
  using assms release_free [of s] release_hands_over [of s] by (cases "waiters s"; fastforce)+

lemma release_SomeD:
  assumes "opened s" "permits s < MAX_PERMITS" "sem_release S s = (Some i, s')"
  shows "opened s'" "permits s = 0" "permits s' = 0" "waiters s = i # waiters s'"
  using assms fair [of s] release_free [of s] release_hands_over [of s]
  by (cases "waiters s"; fastforce)+

end

text \<open>The counting semaphore with a queue of waiters.\<close>

record fifo_sem =
  free_permits :: nat
  wait_queue :: "nat list"

definition fifo_ops :: "fifo_sem semaphore_ops" where
  "fifo_ops =
     \<lparr>sem_new = (\<lambda>n. if unat n \<le> MAX_PERMITS
                    then Some \<lparr>free_permits = unat n, wait_queue = []\<rparr> else None),
      sem_try_acquire = (\<lambda>s. case free_permits s of
                               0 \<Rightarrow> None | Suc n \<Rightarrow> Some (s\<lparr>free_permits := n\<rparr>)),
      sem_acquire = (\<lambda>i s. case free_permits s of
                             0 \<Rightarrow> (AcquirePending, s\<lparr>wait_queue := wait_queue s @ [i]\<rparr>)
                           | Suc n \<Rightarrow> (AcquireReady, s\<lparr>free_permits := n\<rparr>)),
      sem_release = (\<lambda>s. case wait_queue s of
                           [] \<Rightarrow> (None, s\<lparr>free_permits := Suc (free_permits s)\<rparr>)
                         | i # rest \<Rightarrow> (Some i, s\<lparr>wait_queue := rest\<rparr>)),
      sem_forget = (\<lambda>i s. s\<lparr>wait_queue := remove1 i (wait_queue s)\<rparr>)\<rparr>"

lemma fifo_simps:
  "sem_try_acquire fifo_ops s =
     (case free_permits s of 0 \<Rightarrow> None | Suc n \<Rightarrow> Some (s\<lparr>free_permits := n\<rparr>))"
  "sem_acquire fifo_ops i s =
     (case free_permits s of
        0 \<Rightarrow> (AcquirePending, s\<lparr>wait_queue := wait_queue s @ [i]\<rparr>)
      | Suc n \<Rightarrow> (AcquireReady, s\<lparr>free_permits := n\<rparr>))"
  "sem_release fifo_ops s =
     (case wait_queue s of
        [] \<Rightarrow> (None, s\<lparr>free_permits := Suc (free_permits s)\<rparr>)
      | i # rest \<Rightarrow> (Some i, s\<lparr>wait_queue := rest\<rparr>))"
  by (simp_all add: fifo_ops_def)

definition fifo_fair :: "fifo_sem \<Rightarrow> bool" where
  "fifo_fair s \<longleftrightarrow> (wait_queue s \<noteq> [] \<longrightarrow> free_permits s = 0)"

interpretation fifo: semaphore fifo_ops free_permits wait_queue fifo_fair
  by unfold_locales
    (auto simp: fifo_ops_def fifo_fair_def gr0_conv_Suc dest: in_set_remove1 split: nat.splits)

section \<open>Cancellation tokens\<close>

record 'tok token_ops =
  token_new :: 'tok
  token_cancel :: "'tok \<Rightarrow> 'tok"
  token_cancelled :: "'tok \<Rightarrow> bool"

locale cancellation =
  fixes T :: "'tok token_ops"
  assumes new_not_cancelled: "\<not> token_cancelled T (token_new T)"
    and cancel_cancels: "token_cancelled T (token_cancel T t)"
begin

lemma cancels_iff:
  "token_cancelled T ((token_cancel T ^^ n) t) \<longleftrightarrow> n > 0 \<or> token_cancelled T t"
  by (cases n) (simp_all add: cancel_cancels)

end

definition flag_ops :: "bool token_ops" where
  "flag_ops = \<lparr>token_new = False, token_cancel = (\<lambda>_. True), token_cancelled = (\<lambda>t. t)\<rparr>"

interpretation flag: cancellation flag_ops
  by unfold_locales (simp_all add: flag_ops_def)

end
