(* ===== verification/Proxy.thy ===== *)
theory Proxy
  imports Runtime Network Proxy_State
begin

text \<open>
  \<open>src/proxy.rs\<close>, the parts that run without interleaving: building the server, the admission of an
  accepted connection, serving one connection, binding the listeners, and what the server makes of
  the outcome of each listener. \<open>Proxy_System\<close> puts them together as concurrent tasks.
\<close>

section \<open>The server\<close>

record ('l, 'b, 'sem, 'tok) proxy_server =
  listener_factory :: 'l
  balancer :: 'b
  server_ports :: "u16 list"
  cancel_token :: 'tok
  open_connections :: 'sem
  queued_connections :: 'sem
  bind_addr :: ip_addr
  copy_buf_size :: usize

text \<open>\<open>ProxyServer::new\<close>; \<open>None\<close> when a semaphore panics on too many permits.\<close>

definition proxy_server_new ::
  "'sem semaphore_ops \<Rightarrow> 'l \<Rightarrow> 'b \<Rightarrow> proxy_config \<Rightarrow> 'tok \<Rightarrow> usize \<Rightarrow> usize \<Rightarrow> ip_addr \<Rightarrow> usize
   \<Rightarrow> ('l, 'b, 'sem, 'tok) proxy_server option" where
  "proxy_server_new S factory bal config tok max_connections max_queue addr buf_size =
     (case sem_new S max_connections of
        None \<Rightarrow> None
      | Some open_sem \<Rightarrow>
          (case sem_new S max_queue of
             None \<Rightarrow> None
           | Some queue_sem \<Rightarrow>
               Some \<lparr>listener_factory = factory, balancer = bal, server_ports = ports config,
                     cancel_token = tok, open_connections = open_sem,
                     queued_connections = queue_sem, bind_addr = addr, copy_buf_size = buf_size\<rparr>))"

section \<open>Connection tasks\<close>

text \<open>
  How far the task of a connection has come, and what it holds: \<open>Unpolled\<close> a queue slot, before its
  first poll; \<open>Waiting\<close> a queue slot and a place in the line for a permit; \<open>Granted\<close> a permit and
  still the queue slot; \<open>Serving\<close> a permit, inside \<open>do_connection\<close>; \<open>Leaving\<close> a queue slot, on its
  way out; \<open>Gone\<close> nothing, it has ended.
\<close>

datatype task_phase = Unpolled | Waiting | Granted | Serving | Leaving | Gone

record 'c task =
  task_port :: u16
  task_sock :: 'c
  phase :: task_phase
  aborting :: bool
  joined :: bool

definition spawned :: "u16 \<Rightarrow> 'c \<Rightarrow> task_phase \<Rightarrow> 'c task" where
  "spawned port sock ph =
     \<lparr>task_port = port, task_sock = sock, phase = ph, aborting = False, joined = False\<rparr>"

section \<open>Admission of a connection\<close>

datatype accept_result =
    Connected | RetryImmediately | RejectedTooManyConnections | PermanentError proxy_error

definition transient_accept_error :: "proxy_error \<Rightarrow> bool" where
  "transient_accept_error e =
     (case e of
        IoError io_err \<Rightarrow>
          (case io_kind io_err of
             ConnectionRefused \<Rightarrow> True | ConnectionReset \<Rightarrow> True | ConnectionAborted \<Rightarrow> True
           | _ \<Rightarrow> False)
      | _ \<Rightarrow> False)"

text \<open>
  \<open>accept_connection\<close> is straight-line code, but the semaphores are shared with the other
  listeners, so it is the composition of its three accesses: what to do with the outcome of
  \<open>accept\<close>, the attempt to take a permit, and the attempt to take a place in the queue.
\<close>

definition classify_accept ::
  "proxy_error + 'c \<times> socket_addr \<Rightarrow> accept_result + 'c" where
  "classify_accept accept_result =
     (case accept_result of
        Ok (in_sock, source_addr) \<Rightarrow> Inr in_sock
      | Err e \<Rightarrow> Inl (if transient_accept_error e then RetryImmediately else PermanentError e))"

definition accept_open ::
  "'sem semaphore_ops \<Rightarrow> u16 \<Rightarrow> 'c \<Rightarrow> 'sem \<Rightarrow> 'c task list \<Rightarrow> ('sem \<times> 'c task list) option" where
  "accept_open S port in_sock open_sem connections =
     (case sem_try_acquire S open_sem of
        Some open_sem' \<Rightarrow> Some (open_sem', connections @ [spawned port in_sock Serving])
      | None \<Rightarrow> None)"

definition accept_queue ::
  "'sem semaphore_ops \<Rightarrow> u16 \<Rightarrow> 'c \<Rightarrow> 'sem \<Rightarrow> 'c task list
   \<Rightarrow> accept_result \<times> 'sem \<times> 'c task list" where
  "accept_queue S port in_sock queue_sem connections =
     (case sem_try_acquire S queue_sem of
        Some queue_sem' \<Rightarrow> (Connected, queue_sem', connections @ [spawned port in_sock Unpolled])
      | None \<Rightarrow> (RejectedTooManyConnections, queue_sem, connections))"

definition accept_connection ::
  "'sem semaphore_ops \<Rightarrow> proxy_error + 'c \<times> socket_addr \<Rightarrow> u16 \<Rightarrow> 'sem \<Rightarrow> 'sem \<Rightarrow> 'c task list
   \<Rightarrow> accept_result \<times> 'sem \<times> 'sem \<times> 'c task list" where
  "accept_connection S accept_result port open_sem queue_sem connections =
     (case classify_accept accept_result of
        Inl r \<Rightarrow> (r, open_sem, queue_sem, connections)
      | Inr in_sock \<Rightarrow>
          (case accept_open S port in_sock open_sem connections of
             Some (open_sem', connections') \<Rightarrow> (Connected, open_sem', queue_sem, connections')
           | None \<Rightarrow>
               (case accept_queue S port in_sock queue_sem connections of
                  (r, queue_sem', connections') \<Rightarrow> (r, open_sem, queue_sem', connections'))))"

context semaphore
begin

lemma accept_open_cases:
  assumes "opened open_sem"
  shows "(permits open_sem > 0 \<and> (\<exists>open_sem'.
             accept_open S port c open_sem cs = Some (open_sem', cs @ [spawned port c Serving])
             \<and> opened open_sem' \<and> permits open_sem = Suc (permits open_sem')
             \<and> waiters open_sem = [] \<and> waiters open_sem' = []))
         \<or> (permits open_sem = 0 \<and> accept_open S port c open_sem cs = None)"
  using try_acquire_NoneD [OF assms] try_acquire_SomeD [OF assms]
  by (cases "sem_try_acquire S open_sem") (fastforce simp: accept_open_def)+

lemma accept_queue_cases:
  assumes "opened queue_sem"
  shows "(permits queue_sem > 0 \<and> (\<exists>queue_sem'.
             accept_queue S port c queue_sem cs
               = (Connected, queue_sem', cs @ [spawned port c Unpolled])
             \<and> opened queue_sem' \<and> permits queue_sem = Suc (permits queue_sem')
             \<and> waiters queue_sem = [] \<and> waiters queue_sem' = []))
         \<or> (permits queue_sem = 0
            \<and> accept_queue S port c queue_sem cs = (RejectedTooManyConnections, queue_sem, cs))"
  using try_acquire_NoneD [OF assms] try_acquire_SomeD [OF assms]
  by (cases "sem_try_acquire S queue_sem") (fastforce simp: accept_queue_def)+

lemma accept_connection_cases:
  assumes "opened open_sem" "opened queue_sem"
  shows "accept_connection S res port open_sem queue_sem cs = (r, open_sem', queue_sem', cs') \<Longrightarrow>
    (case res of
       Err e \<Rightarrow> open_sem' = open_sem \<and> queue_sem' = queue_sem \<and> cs' = cs
         \<and> r = (if transient_accept_error e then RetryImmediately else PermanentError e)
     | Ok (c, _) \<Rightarrow>
         if permits open_sem > 0
         then r = Connected \<and> cs' = cs @ [spawned port c Serving] \<and> queue_sem' = queue_sem
           \<and> permits open_sem = Suc (permits open_sem')
         else if permits queue_sem > 0
         then r = Connected \<and> cs' = cs @ [spawned port c Unpolled] \<and> open_sem' = open_sem
           \<and> permits queue_sem = Suc (permits queue_sem')
         else r = RejectedTooManyConnections \<and> cs' = cs \<and> open_sem' = open_sem
           \<and> queue_sem' = queue_sem)"
proof -
  assume run: "accept_connection S res port open_sem queue_sem cs = (r, open_sem', queue_sem', cs')"
  show ?thesis
  proof (cases res)
    case (Inl e)
    with run show ?thesis by (auto simp: accept_connection_def classify_accept_def)
  next
    case (Inr sock)
    obtain c addr where sock: "sock = (c, addr)" by fastforce
    consider (serve) "permits open_sem > 0" | (line) "permits open_sem = 0" by blast
    then show ?thesis
    proof cases
      case serve
      with run Inr sock accept_open_cases [OF assms(1), of port c cs] show ?thesis
        by (auto simp: accept_connection_def classify_accept_def)
    next
      case line
      with accept_open_cases [OF assms(1), of port c cs]
      have "accept_open S port c open_sem cs = None" by simp
      with run Inr sock line accept_queue_cases [OF assms(2), of port c cs] show ?thesis
        by (auto simp: accept_connection_def classify_accept_def)
    qed
  qed
qed

end

text \<open>
  An accepted connection runs at once when a permit is free; otherwise it is queued when the
  queue has room; otherwise it is dropped, and nothing changes. A transient accept error is retried
  and any other is returned, in both cases with nothing taken.
\<close>

theorem accept_connection_admission:
  assumes "semaphore S permits waiters opened" "opened open_sem" "opened queue_sem"
    and "accept_connection S res port open_sem queue_sem cs = (r, open_sem', queue_sem', cs')"
  shows "case res of
       Err e \<Rightarrow> open_sem' = open_sem \<and> queue_sem' = queue_sem \<and> cs' = cs
         \<and> r = (if transient_accept_error e then RetryImmediately else PermanentError e)
     | Ok (c, _) \<Rightarrow>
         if permits open_sem > 0
         then r = Connected \<and> cs' = cs @ [spawned port c Serving] \<and> queue_sem' = queue_sem
           \<and> permits open_sem = Suc (permits open_sem')
         else if permits queue_sem > 0
         then r = Connected \<and> cs' = cs @ [spawned port c Unpolled] \<and> open_sem' = open_sem
           \<and> permits queue_sem = Suc (permits queue_sem')
         else r = RejectedTooManyConnections \<and> cs' = cs \<and> open_sem' = open_sem
           \<and> queue_sem' = queue_sem"
  using semaphore.accept_connection_cases [OF assms] .

theorem accept_connection_admission_witness:
  "let full = \<lparr>free_permits = 0, wait_queue = [7]\<rparr>; room = \<lparr>free_permits = 2, wait_queue = []\<rparr> in
   \<exists>queue_sem'.
     accept_connection fifo_ops (Ok (''sock'', SocketAddr (V4 10 0 0 9) 5000 0)) 80 full room []
       = (Connected, full, queue_sem', [spawned 80 ''sock'' Unpolled])
     \<and> Suc (free_permits queue_sem') = 2"
proof -
  let ?full = "\<lparr>free_permits = 0, wait_queue = [7]\<rparr>" and ?room = "\<lparr>free_permits = 2, wait_queue = []\<rparr>"
  obtain r open_sem' queue_sem' cs' where eq:
    "accept_connection fifo_ops (Ok (''sock'', SocketAddr (V4 10 0 0 9) 5000 0)) 80 ?full ?room []
       = (r, open_sem', queue_sem', cs')"
    by (metis prod.exhaust)
  have "fifo_fair ?full" "fifo_fair ?room" by (simp_all add: fifo_fair_def)
  from accept_connection_admission [OF fifo.semaphore_axioms this eq] eq show ?thesis
    by (simp add: Let_def)
qed

section \<open>Serving a connection\<close>

text \<open>
  \<open>do_connection\<close> over the balancer's \<open>connect_backend\<close> and tokio's
  \<open>copy_bidirectional_with_sizes\<close>, which takes the two buffer sizes and the two streams.
\<close>

type_synonym ('o, 'w) connect_op = "u16 \<Rightarrow> 'w \<Rightarrow> (proxy_error + 'o \<times> socket_addr) \<times> 'w"

type_synonym ('c, 'o, 'w) copy_op = "usize \<Rightarrow> usize \<Rightarrow> 'c \<Rightarrow> 'o \<Rightarrow> 'w \<Rightarrow> (io_error + nat \<times> nat) \<times> 'w"

definition do_connection ::
  "('o, 'w) connect_op \<Rightarrow> ('c, 'o, 'w) copy_op \<Rightarrow> u16 \<Rightarrow> 'c \<Rightarrow> usize \<Rightarrow> 'w \<Rightarrow> (proxy_error + unit) \<times> 'w" where
  "do_connection connect copy port in_sock buf_size w =
     (case connect port w of
        (Err e, w1) \<Rightarrow> (Err e, w1)
      | (Ok (out_sock, addr), w1) \<Rightarrow>
          (case copy buf_size buf_size in_sock out_sock w1 of
             (Err e, w2) \<Rightarrow> (Err (IoError e), w2)
           | (Ok n, w2) \<Rightarrow> (Ok (), w2)))"

section \<open>Binding the listeners\<close>

type_synonym ('l, 'h, 'w) bind_op = "'l \<Rightarrow> socket_addr \<Rightarrow> 'w \<Rightarrow> (proxy_error + 'h) \<times> 'w"

text \<open>The first loop of \<open>ProxyServer::run\<close>.\<close>

fun bind_ports ::
  "('l, 'h, 'w) bind_op \<Rightarrow> 'l \<Rightarrow> ip_addr \<Rightarrow> u16 list \<Rightarrow> (u16 \<times> 'h) list \<Rightarrow> 'w
   \<Rightarrow> (proxy_error + (u16 \<times> 'h) list) \<times> 'w" where
  "bind_ports bindf factory ip [] bound w = (Ok bound, w)"
| "bind_ports bindf factory ip (port # rest) bound w =
     (let addr = socket_addr_new ip port in
      case bindf factory addr w of
        (Err e, w1) \<Rightarrow> (Err (maybe_into_bind_error e addr), w1)
      | (Ok listener, w1) \<Rightarrow> bind_ports bindf factory ip rest (bound @ [(port, listener)]) w1)"

lemma bind_ports_fst:
  "bind_ports bindf f ip ps bound w = (Ok ls, w') \<Longrightarrow> map fst ls = map fst bound @ ps"
  by (induction ps arbitrary: bound w) (auto simp: Let_def split: prod.splits sum.splits)

text \<open>The same calls with a log of the addresses and their outcomes.\<close>

definition bind_logged ::
  "('l, 'h, 'w) bind_op \<Rightarrow> ('l, 'h, 'w \<times> (socket_addr \<times> (proxy_error + 'h)) list) bind_op" where
  "bind_logged bindf factory addr wl =
     (case bindf factory addr (fst wl) of (r, w1) \<Rightarrow> (r, (w1, snd wl @ [(addr, r)])))"

lemma bind_logged_eq:
  "bindf f a w = (r, w1) \<Longrightarrow> bind_logged bindf f a (w, lg) = (r, (w1, lg @ [(a, r)]))"
  by (simp add: bind_logged_def)

lemma bind_ports_logged:
  "\<exists>lg'. bind_ports (bind_logged bindf) f ip ps bound (w, lg) =
     (fst (bind_ports bindf f ip ps bound w), (snd (bind_ports bindf f ip ps bound w), lg'))"
  by (induction ps arbitrary: bound w lg)
    (simp_all add: Let_def bind_logged_def split: prod.split sum.split)

lemma bind_ports_log:
  assumes "bind_ports (bind_logged bindf) f ip ps bound (w, lg) = (res, (w', lg'))"
  shows "case res of
      Ok all \<Rightarrow> \<exists>hs. length hs = length ps \<and> all = bound @ zip ps hs
        \<and> lg' = lg @ zip (map (socket_addr_new ip) ps) (map Ok hs)
    | Err e \<Rightarrow> \<exists>pre p post hs e0. ps = pre @ p # post \<and> length hs = length pre
        \<and> lg' = lg @ zip (map (socket_addr_new ip) pre) (map Ok hs) @ [(socket_addr_new ip p, Err e0)]
        \<and> e = maybe_into_bind_error e0 (socket_addr_new ip p)"
  using assms
proof (induction ps arbitrary: bound w lg)
  case Nil
  then show ?case by auto
next
  case (Cons p ps)
  let ?a = "socket_addr_new ip p"
  obtain r w1 where b: "bindf f ?a w = (r, w1)" by fastforce
  show ?case
  proof (cases r)
    case (Inl e0)
    with Cons.prems b have "res = Err (maybe_into_bind_error e0 ?a)" "lg' = lg @ [(?a, Err e0)]"
      by (auto simp: bind_logged_def Let_def)
    moreover have "p # ps = [] @ p # ps" "length [] = length []" by simp_all
    ultimately show ?thesis by fastforce
  next
    case (Inr h)
    with Cons.prems b
    have "bind_ports (bind_logged bindf) f ip ps (bound @ [(p, h)]) (w1, lg @ [(?a, Ok h)]) = (res, (w', lg'))"
      by (simp add: bind_logged_eq Let_def)
    from Cons.IH [OF this] show ?thesis
    proof (cases res)
      case (Inr all)
      with \<open>case res of Ok all \<Rightarrow> _ all | Err e \<Rightarrow> _ e\<close> obtain hs where
        "length hs = length ps" "all = (bound @ [(p, h)]) @ zip ps hs"
        "lg' = (lg @ [(?a, Ok h)]) @ zip (map (socket_addr_new ip) ps) (map Ok hs)" by auto
      then show ?thesis using Inr by (auto intro!: exI [of _ "h # hs"])
    next
      case (Inl e)
      with \<open>case res of Ok all \<Rightarrow> _ all | Err e \<Rightarrow> _ e\<close> obtain pre q post hs e0 where
        "ps = pre @ q # post" "length hs = length pre"
        "lg' = (lg @ [(?a, Ok h)]) @ zip (map (socket_addr_new ip) pre) (map Ok hs)
           @ [(socket_addr_new ip q, Err e0)]" "e = maybe_into_bind_error e0 (socket_addr_new ip q)"
        by auto
      then have "p # ps = (p # pre) @ q # post \<and> length (h # hs) = length (p # pre)
          \<and> lg' = lg @ zip (map (socket_addr_new ip) (p # pre)) (map Ok (h # hs))
               @ [(socket_addr_new ip q, Err e0)]
          \<and> e = maybe_into_bind_error e0 (socket_addr_new ip q)"
        by simp
      then show ?thesis unfolding Inl sum.case by blast
    qed
  qed
qed

text \<open>
  C26: the listeners are bound one after the other in the order of the ports. Either all are bound,
  or the server returns the error of the first that fails, reported against its address when it is
  an I/O error, and no further port is tried.
\<close>

theorem bind_stops_at_first_failure:
  assumes "bind_ports (bind_logged bindf) factory ip ps [] (w, []) = (res, (w', log))"
  shows "case res of
      Ok listeners \<Rightarrow> map fst listeners = ps
        \<and> log = map (\<lambda>(p, h). (socket_addr_new ip p, Ok h)) listeners
    | Err e \<Rightarrow> \<exists>pre p post hs e0. ps = pre @ p # post \<and> length hs = length pre
        \<and> log = zip (map (socket_addr_new ip) pre) (map Ok hs) @ [(socket_addr_new ip p, Err e0)]
        \<and> e = maybe_into_bind_error e0 (socket_addr_new ip p)"
  using bind_ports_log [OF assms]
  by (cases res) (auto simp: zip_map_map map_prod_def split_def)

theorem bind_stops_at_first_failure_witness:
  "\<exists>e. fst (bind_ports (bind_logged (\<lambda>f a w. (if sa_port a = 81
           then Err (IoError (Io_Error AddrInUse ''in use'')) else Ok (sa_port a), w)))
         () (V4 127 0 0 1) [80, 81, 82] [] ((), [])) = Err e
     \<and> e = BindError (show_socket_addr (SocketAddr (V4 127 0 0 1) 81 0)) (Io_Error AddrInUse ''in use'')"
proof -
  let ?bind = "\<lambda>f a w. (if sa_port a = 81
      then Err (IoError (Io_Error AddrInUse ''in use'')) else Ok (sa_port a), w)"
  obtain res w' lg where run:
    "bind_ports (bind_logged ?bind) () (V4 127 0 0 1) [80, 81, 82] [] ((), []) = (res, (w', lg))"
    by (rule prod_cases3)
  then have "res = Err (BindError (show_socket_addr (SocketAddr (V4 127 0 0 1) 81 0)) (Io_Error AddrInUse ''in use''))"
    by (auto simp: bind_logged_def socket_addr_new_def)
  with bind_stops_at_first_failure [OF run] run show ?thesis by simp
qed

section \<open>The outcomes of the listeners\<close>

text \<open>How the task of a listener ended, for \<open>JoinSet::join_next\<close>: it returned, or it panicked.\<close>

datatype listener_exit = Exited "proxy_error + unit" | JoinFailed string

text \<open>One turn of the join loop of \<open>ProxyServer::run\<close>, and its result.\<close>

fun on_listener_joined ::
  "'tok token_ops \<Rightarrow> listener_exit \<Rightarrow> 'tok \<times> proxy_error option \<Rightarrow> 'tok \<times> proxy_error option" where
  "on_listener_joined T (Exited (Ok u)) (tok, first_error) = (tok, first_error)"
| "on_listener_joined T (Exited (Err listen_error)) (tok, first_error) =
     (token_cancel T tok, get_or_insert first_error listen_error)"
| "on_listener_joined T (JoinFailed message) (tok, first_error) =
     (token_cancel T tok, get_or_insert first_error (TaskCancellation message))"

fun run_result :: "proxy_error option \<Rightarrow> proxy_error + unit" where
  "run_result (Some e) = Err e"
| "run_result None = Ok ()"

fun exit_error :: "listener_exit \<Rightarrow> proxy_error option" where
  "exit_error (Exited (Ok u)) = None"
| "exit_error (Exited (Err e)) = Some e"
| "exit_error (JoinFailed message) = Some (TaskCancellation message)"


text \<open>The whole join loop, on the outcomes in the order in which the tasks are joined.\<close>

definition join_all ::
  "'tok token_ops \<Rightarrow> listener_exit list \<Rightarrow> 'tok \<Rightarrow> (proxy_error + unit) \<times> 'tok" where
  "join_all T exits tok =
     (case fold (on_listener_joined T) exits (tok, None) of
        (tok', first_error) \<Rightarrow> (run_result first_error, tok'))"

lemma on_listener_joined_eq:
  "on_listener_joined T x (tok, fe) =
     (case exit_error x of
        None \<Rightarrow> (tok, fe) | Some e \<Rightarrow> (token_cancel T tok, get_or_insert fe e))"
  by (cases x rule: exit_error.cases) simp_all

lemma get_or_insert_eq: "get_or_insert x v = Some (case x of None \<Rightarrow> v | Some u \<Rightarrow> u)"
  by (cases x) simp_all

definition first_exit_error :: "listener_exit list \<Rightarrow> proxy_error option" where
  "first_exit_error exits =
     (case filter (\<lambda>x. exit_error x \<noteq> None) exits of [] \<Rightarrow> None | x # rest \<Rightarrow> exit_error x)"

lemma fold_on_listener_joined:
  "fold (on_listener_joined T) exits (tok, fe) =
     ((token_cancel T ^^ count_if (\<lambda>x. exit_error x \<noteq> None) exits) tok,
      case fe of Some e \<Rightarrow> Some e | None \<Rightarrow> first_exit_error exits)"
proof (induction exits arbitrary: tok fe)
  case (Cons x exits)
  show ?case
    by (cases "exit_error x")
      (simp_all add: on_listener_joined_eq Cons.IH get_or_insert_eq count_simps first_exit_error_def
        funpow_swap1 split: option.split)
qed (simp add: first_exit_error_def split: option.split)

text \<open>
  The server returns success exactly when every listener returned without an error; otherwise
  it returns the error of the first joined listener that failed, a panic counting as a cancelled
  task, and the shared token is cancelled, so that the remaining listeners shut down.
\<close>

theorem first_listener_error_wins:
  assumes "cancellation T" "join_all T exits tok = (res, tok')"
  shows "(res = Ok () \<and> tok' = tok \<and> (\<forall>x \<in> set exits. exit_error x = None))
    \<or> (\<exists>pre x e post. exits = pre @ x # post \<and> (\<forall>y \<in> set pre. exit_error y = None)
        \<and> exit_error x = Some e \<and> res = Err e \<and> token_cancelled T tok')"
proof (cases "filter (\<lambda>x. exit_error x \<noteq> None) exits")
  case Nil
  with assms(2) show ?thesis
    by (auto simp: join_all_def fold_on_listener_joined first_exit_error_def filter_empty_conv
        count_if_def)
next
  case (Cons x rest)
  then obtain pre post where split: "exits = pre @ x # post"
    "\<forall>y \<in> set pre. exit_error y = None" "exit_error x \<noteq> None"
    by (auto simp: filter_eq_Cons_iff)
  then obtain e where e: "exit_error x = Some e" by auto
  have "0 < count_if (\<lambda>x. exit_error x \<noteq> None) exits" using Cons by (simp add: count_if_def)
  with assms(1) have "token_cancelled T ((token_cancel T ^^ count_if (\<lambda>x. exit_error x \<noteq> None) exits) tok)"
    by (simp add: cancellation.cancels_iff)
  moreover have "first_exit_error exits = Some e" using Cons e by (simp add: first_exit_error_def)
  ultimately have "res = Err e" "token_cancelled T tok'"
    using assms(2) by (auto simp: join_all_def fold_on_listener_joined)
  with split e show ?thesis by blast
qed

theorem first_listener_error_wins_witness:
  "fst (join_all flag_ops [Exited (Ok ()), JoinFailed ''boom'', Exited (Err (ProxyStateError ''x''))] False)
     = Err (TaskCancellation ''boom'')"
proof -
  let ?exits = "[Exited (Ok ()), JoinFailed ''boom'', Exited (Err (ProxyStateError ''x''))]"
  obtain res tok' where run: "join_all flag_ops ?exits False = (res, tok')" by fastforce
  from first_listener_error_wins [OF flag.cancellation_axioms run] run show ?thesis
    by (auto simp: Cons_eq_append_conv)
qed

end
