(* ===== verification/Proxy_System.thy ===== *)
theory Proxy_System
  imports Proxy
begin

text \<open>
  \<open>ProxyServer::run\<close> and \<open>listen\<close> of \<open>src/proxy.rs\<close> as concurrent tasks: the main task, one listener
  per port, and one task per connection, which share two semaphores and a cancellation token. A step
  is one access of one task to what is shared; which task runs next, what \<open>accept\<close> returns, when a
  connection ends and how much time passes are not determined.
\<close>

section \<open>The state\<close>

text \<open>
  Where a listener is: in the loop that reaps finished tasks, waiting in \<open>accept\<close>, with a connection
  that found no free permit, in the final \<open>select!\<close> with the result of the accept loop and the
  deadline of its \<open>sleep\<close>, ended, or ended and joined by the main task.
\<close>

datatype 'c listener =
    Reaping | Accepting | Queueing 'c | Draining "proxy_error + unit" instant
  | Ended listener_exit | Retired listener_exit

datatype main_phase = Joining "proxy_error option" | Returned "proxy_error + unit"

record ('sem, 'tok, 'c) sys =
  open_sem :: 'sem
  queue_sem :: 'sem
  token :: 'tok
  clock :: instant
  listeners :: "u16 \<rightharpoonup> 'c listener"
  conn_tasks :: "'c task list"
  main_phase :: main_phase

definition sys_start :: "('l, 'b, 'sem, 'tok) proxy_server \<Rightarrow> u16 list \<Rightarrow> instant \<Rightarrow> ('sem, 'tok, 'c) sys" where
  "sys_start srv ps now =
     \<lparr>open_sem = open_connections srv, queue_sem = queued_connections srv, token = cancel_token srv,
      clock = now, listeners = (\<lambda>p. if p \<in> set ps then Some Reaping else None),
      conn_tasks = [], main_phase = Joining None\<rparr>"

text \<open>
  \<open>ProxyServer::run\<close> up to its join loop: bind every port, then start a listener on each.
\<close>

definition proxy_run ::
  "('l, 'h, 'w) bind_op \<Rightarrow> ('l, 'b, 'sem, 'tok) proxy_server \<Rightarrow> instant \<Rightarrow> 'w
   \<Rightarrow> (proxy_error + ('sem, 'tok, 'c) sys) \<times> 'w" where
  "proxy_run bindf srv now w =
     (case bind_ports bindf (listener_factory srv) (bind_addr srv) (server_ports srv) [] w of
        (Err e, w1) \<Rightarrow> (Err e, w1)
      | (Ok port_listeners, w1) \<Rightarrow> (Ok (sys_start srv (map fst port_listeners) now), w1))"

lemma proxy_run_OkD:
  assumes "proxy_run bindf srv now w = (Ok sys, w')"
  shows "sys = sys_start srv (server_ports srv) now"
  using assms bind_ports_fst [of bindf _ _ _ "[]"]
  by (auto simp: proxy_run_def split: prod.splits sum.splits)

section \<open>Operations\<close>

definition DRAIN_DEADLINE :: duration where
  "DRAIN_DEADLINE = from_secs 10"

definition set_phase :: "nat \<Rightarrow> task_phase \<Rightarrow> ('sem, 'tok, 'c) sys \<Rightarrow> ('sem, 'tok, 'c) sys" where
  "set_phase i ph s = s\<lparr>conn_tasks := (conn_tasks s)[i := (conn_tasks s ! i)\<lparr>phase := ph\<rparr>]\<rparr>"

definition set_listener :: "u16 \<Rightarrow> 'c listener \<Rightarrow> ('sem, 'tok, 'c) sys \<Rightarrow> ('sem, 'tok, 'c) sys" where
  "set_listener p l s = s\<lparr>listeners := (listeners s)(p \<mapsto> l)\<rparr>"

text \<open>Drop a permit of \<open>open_connections\<close>: the waiter it is handed to, if any, holds it from now on.\<close>

definition release_open :: "'sem semaphore_ops \<Rightarrow> ('sem, 'tok, 'c) sys \<Rightarrow> ('sem, 'tok, 'c) sys" where
  "release_open S s =
     (case sem_release S (open_sem s) of
        (None, sem) \<Rightarrow> s\<lparr>open_sem := sem\<rparr>
      | (Some i, sem) \<Rightarrow> set_phase i Granted (s\<lparr>open_sem := sem\<rparr>))"

text \<open>Drop a queue slot. Nothing ever waits for one.\<close>

definition release_queue :: "'sem semaphore_ops \<Rightarrow> ('sem, 'tok, 'c) sys \<Rightarrow> ('sem, 'tok, 'c) sys" where
  "release_queue S s = s\<lparr>queue_sem := snd (sem_release S (queue_sem s))\<rparr>"

text \<open>Drop the \<open>JoinSet\<close> of a listener: every task in it is told to stop.\<close>

definition abort_tasks :: "u16 \<Rightarrow> ('sem, 'tok, 'c) sys \<Rightarrow> ('sem, 'tok, 'c) sys" where
  "abort_tasks p s = s\<lparr>conn_tasks := map (\<lambda>t. if task_port t = p \<and> \<not> joined t then t\<lparr>aborting := True\<rparr> else t)
                        (conn_tasks s)\<rparr>"

definition join_task :: "nat \<Rightarrow> ('sem, 'tok, 'c) sys \<Rightarrow> ('sem, 'tok, 'c) sys" where
  "join_task i s = s\<lparr>conn_tasks := (conn_tasks s)[i := (conn_tasks s ! i)\<lparr>joined := True\<rparr>]\<rparr>"

text \<open>A finished task in the \<open>JoinSet\<close> of the listener on \<open>p\<close>.\<close>

definition joinable :: "u16 \<Rightarrow> 'c task \<Rightarrow> bool" where
  "joinable p t \<longleftrightarrow> task_port t = p \<and> phase t = Gone \<and> \<not> joined t"

text \<open>One turn of the accept loop of \<open>listen\<close>, once \<open>accept\<close> has returned.\<close>

definition on_accept ::
  "'sem semaphore_ops \<Rightarrow> 'tok token_ops \<Rightarrow> u16 \<Rightarrow> proxy_error + 'c \<times> socket_addr
   \<Rightarrow> ('sem, 'tok, 'c) sys \<Rightarrow> ('sem, 'tok, 'c) sys" where
  "on_accept S T p res s =
     (case classify_accept res of
        Inl (PermanentError e) \<Rightarrow>
          set_listener p (Draining (Err e) (clock s + DRAIN_DEADLINE)) (s\<lparr>token := token_cancel T (token s)\<rparr>)
      | Inl r \<Rightarrow> set_listener p Reaping s
      | Inr sock \<Rightarrow>
          (case accept_open S p sock (open_sem s) (conn_tasks s) of
             Some (sem, ts) \<Rightarrow> set_listener p Reaping (s\<lparr>open_sem := sem, conn_tasks := ts\<rparr>)
           | None \<Rightarrow> set_listener p (Queueing sock) s))"

definition on_queueing ::
  "'sem semaphore_ops \<Rightarrow> u16 \<Rightarrow> 'c \<Rightarrow> ('sem, 'tok, 'c) sys \<Rightarrow> ('sem, 'tok, 'c) sys" where
  "on_queueing S p sock s =
     (case accept_queue S p sock (queue_sem s) (conn_tasks s) of
        (r, sem, ts) \<Rightarrow> set_listener p Reaping (s\<lparr>queue_sem := sem, conn_tasks := ts\<rparr>))"

text \<open>The first poll of \<open>acquire_owned\<close> in the task of a queued connection.\<close>

definition on_poll :: "'sem semaphore_ops \<Rightarrow> nat \<Rightarrow> ('sem, 'tok, 'c) sys \<Rightarrow> ('sem, 'tok, 'c) sys" where
  "on_poll S i s =
     (case sem_acquire S i (open_sem s) of
        (AcquireReady, sem) \<Rightarrow> set_phase i Granted (s\<lparr>open_sem := sem\<rparr>)
      | (AcquirePending, sem) \<Rightarrow> set_phase i Waiting (s\<lparr>open_sem := sem\<rparr>)
      | (AcquireClosed, sem) \<Rightarrow> set_phase i Leaving (s\<lparr>open_sem := sem\<rparr>))"

text \<open>What an aborted task gives back first.\<close>

definition on_abort :: "'sem semaphore_ops \<Rightarrow> nat \<Rightarrow> ('sem, 'tok, 'c) sys \<Rightarrow> ('sem, 'tok, 'c) sys" where
  "on_abort S i s =
     (case phase (conn_tasks s ! i) of
        Unpolled \<Rightarrow> set_phase i Leaving s
      | Waiting \<Rightarrow> set_phase i Leaving (s\<lparr>open_sem := sem_forget S i (open_sem s)\<rparr>)
      | Granted \<Rightarrow> release_open S (set_phase i Leaving s)
      | Serving \<Rightarrow> release_open S (set_phase i Gone s)
      | Leaving \<Rightarrow> s
      | Gone \<Rightarrow> s)"

section \<open>The steps\<close>

inductive sys_step ::
  "'sem semaphore_ops \<Rightarrow> 'tok token_ops \<Rightarrow> ('sem, 'tok, 'c) sys \<Rightarrow> ('sem, 'tok, 'c) sys \<Rightarrow> bool"
  for S :: "'sem semaphore_ops" and T :: "'tok token_ops" and s :: "('sem, 'tok, 'c) sys" where
  reap: "listeners s p = Some l \<Longrightarrow> l = Reaping \<or> (\<exists>r d. l = Draining r d) \<Longrightarrow>
    i < length (conn_tasks s) \<Longrightarrow> joinable p (conn_tasks s ! i) \<Longrightarrow> sys_step S T s (join_task i s)"
| start_accept: "listeners s p = Some Reaping \<Longrightarrow> \<forall>t \<in> set (conn_tasks s). \<not> joinable p t \<Longrightarrow>
    sys_step S T s (set_listener p Accepting s)"
| accept: "listeners s p = Some Accepting \<Longrightarrow> sys_step S T s (on_accept S T p res s)"
| queue: "listeners s p = Some (Queueing sock) \<Longrightarrow> sys_step S T s (on_queueing S p sock s)"
| cancelled: "listeners s p = Some l \<Longrightarrow> l = Reaping \<or> l = Accepting \<Longrightarrow> token_cancelled T (token s) \<Longrightarrow>
    sys_step S T s (set_listener p (Draining (Ok ()) (clock s + DRAIN_DEADLINE)) s)"
| drained: "listeners s p = Some (Draining r d) \<Longrightarrow>
    \<forall>t \<in> set (conn_tasks s). task_port t = p \<longrightarrow> joined t \<Longrightarrow>
    sys_step S T s (set_listener p (Ended (Exited r)) s)"
| deadline: "listeners s p = Some (Draining r d) \<Longrightarrow> d \<le> clock s \<Longrightarrow>
    sys_step S T s (set_listener p (Ended (Exited r)) (abort_tasks p s))"
| panic: "listeners s p = Some l \<Longrightarrow> \<forall>x. l \<noteq> Ended x \<and> l \<noteq> Retired x \<Longrightarrow>
    sys_step S T s (set_listener p (Ended (JoinFailed message)) (abort_tasks p s))"
| join: "main_phase s = Joining fe \<Longrightarrow> listeners s p = Some (Ended x) \<Longrightarrow>
    on_listener_joined T x (token s, fe) = (tok', fe') \<Longrightarrow>
    sys_step S T s (set_listener p (Retired x) (s\<lparr>token := tok', main_phase := Joining fe'\<rparr>))"
| return: "main_phase s = Joining fe \<Longrightarrow> \<forall>p l. listeners s p = Some l \<longrightarrow> (\<exists>x. l = Retired x) \<Longrightarrow>
    sys_step S T s (s\<lparr>main_phase := Returned (run_result fe)\<rparr>)"
| poll: "i < length (conn_tasks s) \<Longrightarrow> phase (conn_tasks s ! i) = Unpolled \<Longrightarrow>
    sys_step S T s (on_poll S i s)"
| leave_queue: "i < length (conn_tasks s) \<Longrightarrow> phase (conn_tasks s ! i) = Granted \<Longrightarrow>
    sys_step S T s (release_queue S (set_phase i Serving s))"
| finish: "i < length (conn_tasks s) \<Longrightarrow> phase (conn_tasks s ! i) = Serving \<Longrightarrow>
    sys_step S T s (release_open S (set_phase i Gone s))"
| leave: "i < length (conn_tasks s) \<Longrightarrow> phase (conn_tasks s ! i) = Leaving \<Longrightarrow>
    sys_step S T s (release_queue S (set_phase i Gone s))"
| abort: "i < length (conn_tasks s) \<Longrightarrow> aborting (conn_tasks s ! i) \<Longrightarrow>
    phase (conn_tasks s ! i) \<notin> {Leaving, Gone} \<Longrightarrow> sys_step S T s (on_abort S i s)"
| signal: "sys_step S T s (s\<lparr>token := token_cancel T (token s)\<rparr>)"
| tick: "sys_step S T s (s\<lparr>clock := clock s + d\<rparr>)"

inductive sys_reaches ::
  "'sem semaphore_ops \<Rightarrow> 'tok token_ops \<Rightarrow> ('sem, 'tok, 'c) sys \<Rightarrow> ('sem, 'tok, 'c) sys \<Rightarrow> bool"
  for S :: "'sem semaphore_ops" and T :: "'tok token_ops" and s :: "('sem, 'tok, 'c) sys" where
  refl: "sys_reaches S T s s"
| trans: "sys_reaches S T s t \<Longrightarrow> sys_step S T t u \<Longrightarrow> sys_reaches S T s u"

text \<open>Invariants are proved step by step.\<close>

lemma sys_reaches_invariant:
  assumes "sys_reaches S T s t" "P s" "\<And>t u. P t \<Longrightarrow> sys_step S T t u \<Longrightarrow> P u"
  shows "P t"
  using assms(1,2) by (induction rule: sys_reaches.induct) (auto intro: assms(3))

section \<open>Permits are conserved\<close>

fun holds_permit :: "task_phase \<Rightarrow> bool" where
  "holds_permit Granted = True"
| "holds_permit Serving = True"
| "holds_permit _ = False"

fun holds_slot :: "task_phase \<Rightarrow> bool" where
  "holds_slot Unpolled = True"
| "holds_slot Waiting = True"
| "holds_slot Granted = True"
| "holds_slot Leaving = True"
| "holds_slot _ = False"

lemma not_holds_permit [simp]: "\<not> holds_permit ph \<longleftrightarrow> ph \<in> {Unpolled, Waiting, Leaving, Gone}"
  by (cases ph) simp_all

text \<open>
  The free permits and those held by tasks are all there are, for connections and for the queue;
  and the line for permits is made of the tasks that wait, each once.
\<close>

definition gate_inv ::
  "('sem \<Rightarrow> nat) \<Rightarrow> ('sem \<Rightarrow> nat list) \<Rightarrow> ('sem \<Rightarrow> bool) \<Rightarrow> nat \<Rightarrow> nat \<Rightarrow> 'sem \<Rightarrow> 'sem
   \<Rightarrow> task_phase list \<Rightarrow> bool" where
  "gate_inv permits waiters opened m q os qs phs \<longleftrightarrow>
     opened os \<and> opened qs \<and> m \<le> MAX_PERMITS \<and> q \<le> MAX_PERMITS
     \<and> permits os + count_if holds_permit phs = m \<and> permits qs + count_if holds_slot phs = q
     \<and> waiters qs = [] \<and> distinct (waiters os)
     \<and> set (waiters os) = {i. i < length phs \<and> phs ! i = Waiting}"

lemma count_holds_update:
  assumes "i < length phs"
  shows "count_if P (phs[i := ph]) + (if P (phs ! i) then 1 else 0)
           = count_if P phs + (if P ph then 1 else 0)"
  using assms by (rule count_if_update)

lemma waiting_update:
  assumes "i < length phs"
  shows "{j. j < length (phs[i := ph]) \<and> phs[i := ph] ! j = Waiting}
    = (if ph = Waiting then insert i else (\<lambda>A. A - {i})) {j. j < length phs \<and> phs ! j = Waiting}"
  using assms by (auto simp: nth_list_update)

lemma waiting_append:
  assumes "ph \<noteq> Waiting"
  shows "{j. j < length (phs @ [ph]) \<and> (phs @ [ph]) ! j = Waiting}
    = {j. j < length phs \<and> phs ! j = Waiting}"
  using assms by (auto simp: nth_append less_Suc_eq)

context semaphore
begin

abbreviation "gate \<equiv> gate_inv permits waiters opened"

lemma gate_spawn_serving:
  assumes "gate m q os qs phs" "sem_try_acquire S os = Some os'"
  shows "gate m q os' qs (phs @ [Serving])"
proof -
  have "opened os" using assms(1) by (simp add: gate_inv_def)
  note acq = try_acquire_SomeD [OF this assms(2)]
  from acq(4) assms(1) have "\<forall>i < length phs. phs ! i \<noteq> Waiting" by (auto simp: gate_inv_def)
  with assms(1) acq show ?thesis
    by (auto simp: gate_inv_def count_simps nth_append less_Suc_eq)
qed

lemma gate_spawn_unpolled:
  assumes "gate m q os qs phs" "sem_try_acquire S qs = Some qs'"
  shows "gate m q os qs' (phs @ [Unpolled])"
proof -
  have "opened qs" using assms(1) by (simp add: gate_inv_def)
  note acq = try_acquire_SomeD [OF this assms(2)]
  from assms(1) acq show ?thesis
    using waiting_append [of Unpolled phs] by (simp add: gate_inv_def count_simps)
qed

lemma gate_poll_ready:
  assumes "gate m q os qs phs" "sem_acquire S i os = (AcquireReady, os')"
    and "i < length phs" "phs ! i = Unpolled"
  shows "gate m q os' qs (phs[i := Granted])"
proof -
  have "opened os" using assms(1) by (simp add: gate_inv_def)
  note acq = acquire_ReadyD [OF this assms(2)]
  with assms(1,3,4) show ?thesis
    using count_holds_update [OF assms(3), of holds_permit Granted]
      count_holds_update [OF assms(3), of holds_slot Granted] waiting_update [OF assms(3), of Granted]
    by (auto simp: gate_inv_def)
qed

lemma gate_poll_pending:
  assumes "gate m q os qs phs" "sem_acquire S i os = (AcquirePending, os')"
    and "i < length phs" "phs ! i = Unpolled"
  shows "gate m q os' qs (phs[i := Waiting])"
proof -
  have "opened os" using assms(1) by (simp add: gate_inv_def)
  note acq = acquire_PendingD [OF this assms(2)]
  with assms(1,3,4) show ?thesis
    using count_holds_update [OF assms(3), of holds_permit Waiting]
      count_holds_update [OF assms(3), of holds_slot Waiting] waiting_update [OF assms(3), of Waiting]
    by (auto simp: gate_inv_def)
qed

text \<open>A task that gives up its permit, which may pass to the first in the line.\<close>

lemma gate_release_free:
  assumes "gate m q os qs phs" "sem_release S os = (None, os')"
    and "i < length phs" "holds_permit (phs ! i)" "ph \<in> {Leaving, Gone}"
    and "holds_slot ph \<longleftrightarrow> holds_slot (phs ! i)"
  shows "gate m q os' qs (phs[i := ph])"
proof -
  have os: "opened os" using assms(1) by (simp add: gate_inv_def)
  have "0 < count_if holds_permit phs" using assms(3,4) by (rule count_if_pos)
  then have "permits os < MAX_PERMITS" using assms(1) by (simp add: gate_inv_def)
  note rel = release_NoneD [OF os this assms(2)]
  have "phs ! i \<noteq> Waiting" using assms(4) by auto
  with rel assms show ?thesis
    using count_holds_update [OF assms(3), of holds_permit ph]
      count_holds_update [OF assms(3), of holds_slot ph] waiting_update [OF assms(3), of ph]
    by (auto simp: gate_inv_def)
qed

lemma gate_release_handed:
  assumes "gate m q os qs phs" "sem_release S os = (Some j, os')"
    and "i < length phs" "holds_permit (phs ! i)" "ph \<in> {Leaving, Gone}"
    and "holds_slot ph \<longleftrightarrow> holds_slot (phs ! i)"
  shows "gate m q os' qs (phs[i := ph, j := Granted])"
    and "waiters os = j # waiters os'"
proof -
  have os: "opened os" using assms(1) by (simp add: gate_inv_def)
  have "0 < count_if holds_permit phs" using assms(3,4) by (rule count_if_pos)
  then have "permits os < MAX_PERMITS" using assms(1) by (simp add: gate_inv_def)
  note rel = release_SomeD [OF os this assms(2)]
  then show "waiters os = j # waiters os'" by simp
  have j: "j < length phs" "phs ! j = Waiting" using rel(4) assms(1) by (auto simp: gate_inv_def)
  with assms(4) have "i \<noteq> j" by auto
  let ?phs = "phs[i := ph]"
  have j': "j < length ?phs" "?phs ! j = Waiting" using j \<open>i \<noteq> j\<close> by simp_all
  have "phs ! i \<noteq> Waiting" using assms(4) by auto
  have "count_if holds_permit (phs[i := ph, j := Granted]) = count_if holds_permit phs"
    using count_holds_update [OF assms(3), of holds_permit ph]
      count_holds_update [OF j'(1), of holds_permit Granted] assms(4,5) j' by auto
  moreover have "count_if holds_slot (phs[i := ph, j := Granted]) = count_if holds_slot phs"
    using count_holds_update [OF assms(3), of holds_slot ph]
      count_holds_update [OF j'(1), of holds_slot Granted] assms(6) j' by (auto split: if_splits)
  moreover have "{k. k < length (phs[i := ph, j := Granted]) \<and> phs[i := ph, j := Granted] ! k = Waiting}
      = {k. k < length phs \<and> phs ! k = Waiting} - {j}"
  proof -
    have "{k. k < length ?phs \<and> ?phs ! k = Waiting} = {k. k < length phs \<and> phs ! k = Waiting} - {i}"
      using waiting_update [OF assms(3), of ph] assms(5) by (simp split: if_splits)
    then show ?thesis
      using waiting_update [OF j'(1), of Granted] \<open>phs ! i \<noteq> Waiting\<close> by simp
  qed
  moreover have "set (waiters os') = set (waiters os) - {j}" "distinct (waiters os')"
    using rel(4) assms(1) by (auto simp: gate_inv_def)
  ultimately show "gate m q os' qs (phs[i := ph, j := Granted])"
    using rel(1-3) assms(1) by (simp add: gate_inv_def)
qed

lemma gate_release_slot:
  assumes "gate m q os qs phs" "i < length phs" "phs ! i \<in> {Granted, Leaving}"
    and "ph = (if phs ! i = Granted then Serving else Gone)"
  shows "gate m q os (snd (sem_release S qs)) (phs[i := ph])"
proof -
  have qs: "opened qs" "waiters qs = []" using assms(1) by (simp_all add: gate_inv_def)
  have "0 < count_if holds_slot phs" using assms(2,3) by (auto intro!: count_if_pos)
  then have "permits qs < MAX_PERMITS" using assms(1) by (simp add: gate_inv_def)
  with release_free [OF qs(1) this qs(2)] have rel: "opened (snd (sem_release S qs))"
    "permits (snd (sem_release S qs)) = Suc (permits qs)" "waiters (snd (sem_release S qs)) = []"
    by auto
  have "count_if holds_permit (phs[i := ph]) = count_if holds_permit phs"
    using count_holds_update [OF assms(2), of holds_permit ph] assms(3,4) by (auto split: if_splits)
  moreover have "Suc (count_if holds_slot (phs[i := ph])) = count_if holds_slot phs"
    using count_holds_update [OF assms(2), of holds_slot ph] assms(3,4) by (auto split: if_splits)
  moreover have "{k. k < length (phs[i := ph]) \<and> phs[i := ph] ! k = Waiting}
      = {k. k < length phs \<and> phs ! k = Waiting}"
  proof -
    have "i \<notin> {k. k < length phs \<and> phs ! k = Waiting}" using assms(3) by auto
    then show ?thesis using waiting_update [OF assms(2), of ph] assms(4) by (simp split: if_splits)
  qed
  ultimately show ?thesis using rel assms(1) by (simp add: gate_inv_def)
qed

lemma gate_forget:
  assumes "gate m q os qs phs" "i < length phs" "phs ! i = Waiting"
  shows "gate m q (sem_forget S i os) qs (phs[i := Leaving])"
  using assms forget [of os i] count_holds_update [OF assms(2), of holds_permit Leaving]
    count_holds_update [OF assms(2), of holds_slot Leaving] waiting_update [OF assms(2), of Leaving]
  by (auto simp: gate_inv_def)

lemma gate_unpolled_leaves:
  assumes "gate m q os qs phs" "i < length phs" "phs ! i = Unpolled"
  shows "gate m q os qs (phs[i := Leaving])"
  using assms count_holds_update [OF assms(2), of holds_permit Leaving]
    count_holds_update [OF assms(2), of holds_slot Leaving] waiting_update [OF assms(2), of Leaving]
  by (auto simp: gate_inv_def)

end

definition phases :: "('sem, 'tok, 'c) sys \<Rightarrow> task_phase list" where
  "phases s = map phase (conn_tasks s)"

lemma phases_length [simp]: "length (phases s) = length (conn_tasks s)"
  by (simp add: phases_def)

lemma phases_nth: "i < length (conn_tasks s) \<Longrightarrow> phases s ! i = phase (conn_tasks s ! i)"
  by (simp add: phases_def)

lemma phases_fields [simp]:
  "phases (s\<lparr>open_sem := os\<rparr>) = phases s" "phases (s\<lparr>queue_sem := qs\<rparr>) = phases s"
  "phases (s\<lparr>token := t\<rparr>) = phases s" "phases (s\<lparr>clock := c\<rparr>) = phases s"
  "phases (s\<lparr>main_phase := mp\<rparr>) = phases s" "phases (s\<lparr>conn_tasks := ts\<rparr>) = map phase ts"
  by (simp_all add: phases_def)

lemma set_phase_simps [simp]:
  "phases (set_phase i ph s) = (phases s)[i := ph]"
  "open_sem (set_phase i ph s) = open_sem s" "queue_sem (set_phase i ph s) = queue_sem s"
  "token (set_phase i ph s) = token s" "clock (set_phase i ph s) = clock s"
  "listeners (set_phase i ph s) = listeners s" "main_phase (set_phase i ph s) = main_phase s"
  by (simp_all add: set_phase_def phases_def map_update)

lemma set_listener_simps [simp]:
  "phases (set_listener p l s) = phases s" "conn_tasks (set_listener p l s) = conn_tasks s"
  "open_sem (set_listener p l s) = open_sem s" "queue_sem (set_listener p l s) = queue_sem s"
  "token (set_listener p l s) = token s" "clock (set_listener p l s) = clock s"
  "listeners (set_listener p l s) = (listeners s)(p \<mapsto> l)"
  "main_phase (set_listener p l s) = main_phase s"
  by (simp_all add: set_listener_def phases_def)

lemma abort_tasks_simps [simp]:
  "phases (abort_tasks p s) = phases s"
  "open_sem (abort_tasks p s) = open_sem s" "queue_sem (abort_tasks p s) = queue_sem s"
  "token (abort_tasks p s) = token s" "clock (abort_tasks p s) = clock s"
  "listeners (abort_tasks p s) = listeners s" "main_phase (abort_tasks p s) = main_phase s"
  by (simp_all add: abort_tasks_def phases_def)

lemma join_task_phases [simp]: "phases (join_task i s) = phases s"
proof (rule nth_equalityI)
  fix j assume "j < length (phases (join_task i s))"
  then show "phases (join_task i s) ! j = phases s ! j"
    by (cases "i = j") (simp_all add: join_task_def phases_def)
qed (simp add: join_task_def)

lemma join_task_simps [simp]:
  "open_sem (join_task i s) = open_sem s" "queue_sem (join_task i s) = queue_sem s"
  "token (join_task i s) = token s" "clock (join_task i s) = clock s"
  "listeners (join_task i s) = listeners s" "main_phase (join_task i s) = main_phase s"
  by (simp_all add: join_task_def)

lemma release_queue_simps [simp]:
  "phases (release_queue S s) = phases s" "conn_tasks (release_queue S s) = conn_tasks s"
  "open_sem (release_queue S s) = open_sem s"
  "queue_sem (release_queue S s) = snd (sem_release S (queue_sem s))"
  "token (release_queue S s) = token s" "clock (release_queue S s) = clock s"
  "listeners (release_queue S s) = listeners s" "main_phase (release_queue S s) = main_phase s"
  by (simp_all add: release_queue_def phases_def)

lemma release_open_frame [simp]:
  "queue_sem (release_open S s) = queue_sem s" "token (release_open S s) = token s"
  "clock (release_open S s) = clock s" "listeners (release_open S s) = listeners s"
  "main_phase (release_open S s) = main_phase s"
  by (simp_all add: release_open_def split: prod.split option.split)

text \<open>What an admission may change.\<close>

lemma on_accept_effect:
  obtains (same) "open_sem (on_accept S T p res s) = open_sem s"
      "conn_tasks (on_accept S T p res s) = conn_tasks s"
      "listeners (on_accept S T p res s) p \<noteq> Some Accepting"
  | (spawn) os' sock where "sem_try_acquire S (open_sem s) = Some os'"
      "open_sem (on_accept S T p res s) = os'"
      "conn_tasks (on_accept S T p res s) = conn_tasks s @ [spawned p sock Serving]"
      "token (on_accept S T p res s) = token s"
      "listeners (on_accept S T p res s) = (listeners s)(p \<mapsto> Reaping)"
proof (cases "classify_accept res")
  case (Inl r)
  then show thesis by (intro same) (simp_all add: on_accept_def split: accept_result.split)
next
  case (Inr sock)
  show thesis
  proof (cases "sem_try_acquire S (open_sem s)")
    case None
    with Inr show thesis by (intro same) (simp_all add: on_accept_def accept_open_def)
  next
    case (Some os')
    with Inr show thesis by (intro spawn) (simp_all add: on_accept_def accept_open_def)
  qed
qed

lemma on_queueing_effect:
  obtains (reject) "sem_try_acquire S (queue_sem s) = None"
      "on_queueing S p sock s = set_listener p Reaping s"
  | (spawn) qs' where "sem_try_acquire S (queue_sem s) = Some qs'"
      "on_queueing S p sock s = set_listener p Reaping
         (s\<lparr>queue_sem := qs', conn_tasks := conn_tasks s @ [spawned p sock Unpolled]\<rparr>)"
  by (cases "sem_try_acquire S (queue_sem s)") (simp_all add: on_queueing_def accept_queue_def)

definition sys_gate ::
  "('sem \<Rightarrow> nat) \<Rightarrow> ('sem \<Rightarrow> nat list) \<Rightarrow> ('sem \<Rightarrow> bool) \<Rightarrow> nat \<Rightarrow> nat \<Rightarrow> ('sem, 'tok, 'c) sys \<Rightarrow> bool" where
  "sys_gate permits waiters opened m q s \<longleftrightarrow>
     gate_inv permits waiters opened m q (open_sem s) (queue_sem s) (phases s)"

context semaphore
begin

lemma release_open_gate:
  assumes "gate m q (open_sem s) (queue_sem s) (phases s)" "i < length (conn_tasks s)"
    and "holds_permit (phases s ! i)" "ph \<in> {Leaving, Gone}"
    and "holds_slot ph \<longleftrightarrow> holds_slot (phases s ! i)"
  shows "sys_gate permits waiters opened m q (release_open S (set_phase i ph s))"
proof (cases "sem_release S (open_sem s)")
  case (Pair who os')
  from assms(2) have "i < length (phases s)" by simp
  note rel = gate_release_free [OF assms(1) _ this assms(3-5), of os']
    gate_release_handed(1) [OF assms(1) _ this assms(3-5), of _ os']
  show ?thesis
    using Pair rel by (cases who) (simp_all add: sys_gate_def release_open_def)
qed

lemma on_accept_gate:
  assumes "sys_gate permits waiters opened m q s"
  shows "sys_gate permits waiters opened m q (on_accept S T p res s)"
proof -
  have spawn: "gate m q os' (queue_sem s) (phases s @ [Serving])"
    if "sem_try_acquire S (open_sem s) = Some os'" for os'
    using assms that by (simp add: sys_gate_def gate_spawn_serving)
  show ?thesis
    using assms spawn
    by (auto simp: on_accept_def sys_gate_def accept_open_def spawned_def phases_def
        split: sum.split accept_result.split option.split)
qed

lemma on_queueing_gate:
  assumes "sys_gate permits waiters opened m q s"
  shows "sys_gate permits waiters opened m q (on_queueing S p sock s)"
proof -
  have spawn: "gate m q (open_sem s) qs' (phases s @ [Unpolled])"
    if "sem_try_acquire S (queue_sem s) = Some qs'" for qs'
    using assms that by (simp add: sys_gate_def gate_spawn_unpolled)
  show ?thesis
    using assms spawn
    by (auto simp: on_queueing_def sys_gate_def accept_queue_def spawned_def phases_def
        split: option.split)
qed

lemma on_poll_gate:
  assumes "sys_gate permits waiters opened m q s" "i < length (conn_tasks s)"
    and "phases s ! i = Unpolled"
  shows "sys_gate permits waiters opened m q (on_poll S i s)"
proof -
  have g: "gate m q (open_sem s) (queue_sem s) (phases s)" using assms(1) by (simp add: sys_gate_def)
  then have "opened (open_sem s)" by (simp add: gate_inv_def)
  from acquire_not_closed [OF this]
  have closed: "sem_acquire S i (open_sem s) \<noteq> (AcquireClosed, os')" for os' .
  have i: "i < length (phases s)" using assms(2) by simp
  show ?thesis
    using gate_poll_ready [OF g _ i assms(3)] gate_poll_pending [OF g _ i assms(3)] closed
    by (auto simp: on_poll_def sys_gate_def split: prod.split acquire_poll.split)
qed

lemma on_abort_gate:
  assumes "sys_gate permits waiters opened m q s" "i < length (conn_tasks s)"
  shows "sys_gate permits waiters opened m q (on_abort S i s)"
proof -
  have g: "gate m q (open_sem s) (queue_sem s) (phases s)" using assms(1) by (simp add: sys_gate_def)
  have i: "i < length (phases s)" using assms(2) by simp
  have ph: "phase (conn_tasks s ! i) = phases s ! i" using assms(2) by (simp add: phases_nth)
  show ?thesis
  proof (cases "phases s ! i")
    case Unpolled
    with g i show ?thesis by (simp add: on_abort_def ph sys_gate_def gate_unpolled_leaves)
  next
    case Waiting
    with g i show ?thesis by (simp add: on_abort_def ph sys_gate_def gate_forget)
  next
    case Granted
    with release_open_gate [OF g assms(2), of Leaving] show ?thesis by (simp add: on_abort_def ph)
  next
    case Serving
    with release_open_gate [OF g assms(2), of Gone] show ?thesis by (simp add: on_abort_def ph)
  qed (simp_all add: on_abort_def ph assms(1))
qed

theorem sys_step_gate:
  assumes "sys_step S T s t" "sys_gate permits waiters opened m q s"
  shows "sys_gate permits waiters opened m q t"
  using assms(1)
proof (cases rule: sys_step.cases)
  case (accept p res)
  with assms(2) show ?thesis by (simp add: on_accept_gate)
next
  case (queue p sock)
  with assms(2) show ?thesis by (simp add: on_queueing_gate)
next
  case (poll i)
  with assms(2) show ?thesis by (simp add: on_poll_gate phases_nth)
next
  case (leave_queue i)
  with assms(2) gate_release_slot [of m q "open_sem s" "queue_sem s" "phases s" i Serving]
  show ?thesis by (simp add: sys_gate_def phases_nth)
next
  case (finish i)
  with assms(2) release_open_gate [of m q s i Gone] show ?thesis by (simp add: sys_gate_def phases_nth)
next
  case (leave i)
  with assms(2) gate_release_slot [of m q "open_sem s" "queue_sem s" "phases s" i Gone]
  show ?thesis by (simp add: sys_gate_def phases_nth)
next
  case (abort i)
  with assms(2) show ?thesis by (simp add: on_abort_gate)
qed (use assms(2) in \<open>simp_all add: sys_gate_def\<close>)

lemma sys_start_gate:
  assumes "proxy_server_new S factory bal cfg tok max_connections max_queue addr buf_size = Some srv"
  shows "sys_gate permits waiters opened (unat max_connections) (unat max_queue) (sys_start srv ps now)"
  using assms new_SomeD [of max_connections] new_SomeD [of max_queue]
  by (auto simp: proxy_server_new_def sys_start_def sys_gate_def gate_inv_def phases_def
      split: option.splits)

lemma reachable_gate:
  assumes "proxy_server_new S factory bal cfg tok max_connections max_queue addr buf_size = Some srv"
    and "sys_reaches S T (sys_start srv ps now) s"
  shows "sys_gate permits waiters opened (unat max_connections) (unat max_queue) s"
  using assms(2) sys_start_gate [OF assms(1)] by (rule sys_reaches_invariant) (rule sys_step_gate)

end

end
