(* ===== verification/Proxy_Properties.thy ===== *)
theory Proxy_Properties
  imports Proxy_System
begin

text \<open>
  What holds of the running server of \<open>src/proxy.rs\<close> however its tasks interleave: the limits on
  connections, and the order in which queued connections are served. A run on one port with one
  place and a queue of two serves the witnesses.
\<close>

section \<open>A run for the witnesses\<close>

text \<open>One connection at a time and two in the queue, on port 80: four connections arrive.\<close>

definition demo_srv :: "(unit, unit, fifo_sem, bool) proxy_server" where
  "demo_srv =
     \<lparr>listener_factory = (), balancer = (), server_ports = [80], cancel_token = False,
      open_connections = \<lparr>free_permits = 1, wait_queue = []\<rparr>,
      queued_connections = \<lparr>free_permits = 2, wait_queue = []\<rparr>,
      bind_addr = V4 127 0 0 1, copy_buf_size = 8192\<rparr>"

definition one_port_config :: proxy_config where
  "one_port_config = \<lparr>target_pools = [[''10.0.0.1:80'']], port_to_pool = [(80, 0)]\<rparr>"

lemma demo_srv_new:
  "proxy_server_new fifo_ops () () one_port_config False 1 2 (V4 127 0 0 1) 8192 = Some demo_srv"
  by (simp add: proxy_server_new_def fifo_ops_def MAX_PERMITS_def demo_srv_def one_port_config_def ports_def)

definition demo_sys ::
  "nat \<Rightarrow> nat list \<Rightarrow> nat \<Rightarrow> string listener \<Rightarrow> (string \<times> task_phase) list \<Rightarrow> (fifo_sem, bool, string) sys" where
  "demo_sys free line slots l ts =
     \<lparr>open_sem = \<lparr>free_permits = free, wait_queue = line\<rparr>,
      queue_sem = \<lparr>free_permits = slots, wait_queue = []\<rparr>, token = False, clock = 0,
      listeners = [80 \<mapsto> l], conn_tasks = map (\<lambda>(c, ph). spawned 80 c ph) ts,
      main_phase = Joining None\<rparr>"

abbreviation demo_reaches :: "(fifo_sem, bool, string) sys \<Rightarrow> bool" where
  "demo_reaches s \<equiv> sys_reaches fifo_ops flag_ops (sys_start demo_srv [80] 0) s"

lemmas demo_simps = demo_sys_def set_listener_def set_phase_def spawned_def joinable_def
  on_accept_def on_queueing_def on_poll_def accept_open_def accept_queue_def classify_accept_def
  release_open_def release_queue_def fifo_simps

lemma demo_start: "demo_reaches (demo_sys 1 [] 2 Reaping [])"
proof -
  have "sys_start demo_srv [80] 0 = demo_sys 1 [] 2 Reaping []"
    by (auto simp: sys_start_def demo_srv_def demo_sys_def)
  then show ?thesis by (metis sys_reaches.refl)
qed

lemma demo_accepting:
  assumes "demo_reaches (demo_sys f line q Reaping ts)" "\<forall>(c, ph) \<in> set ts. ph \<noteq> Gone"
  shows "demo_reaches (demo_sys f line q Accepting ts)"
proof -
  have "\<forall>t \<in> set (conn_tasks (demo_sys f line q Reaping ts)). \<not> joinable 80 t"
    using assms(2) by (auto simp: demo_sys_def joinable_def spawned_def)
  moreover have "listeners (demo_sys f line q Reaping ts) 80 = Some Reaping" by (simp add: demo_sys_def)
  ultimately show ?thesis
    using sys_reaches.trans [OF assms(1) sys_step.start_accept [of _ 80]] by (simp add: demo_simps)
qed

lemma demo_accept:
  assumes "demo_reaches (demo_sys f line q Accepting ts)"
  shows "f = Suc f' \<Longrightarrow> demo_reaches (demo_sys f' line q Reaping (ts @ [(c, Serving)]))"
    and "f = 0 \<Longrightarrow> demo_reaches (demo_sys f line q (Queueing c) ts)"
  using sys_reaches.trans [OF assms sys_step.accept [of _ 80 _ _ "Ok (c, SocketAddr (V4 10 0 0 9) 5000 0)"]]
  by (simp_all add: demo_simps)

lemma demo_queue:
  assumes "demo_reaches (demo_sys f line (Suc q) (Queueing c) ts)"
  shows "demo_reaches (demo_sys f line q Reaping (ts @ [(c, Unpolled)]))"
  using sys_reaches.trans [OF assms sys_step.queue [of _ 80]]
  by (simp add: demo_simps)

lemma demo_poll:
  assumes "demo_reaches (demo_sys 0 line q l (ts @ [(c, Unpolled)]))"
  shows "demo_reaches (demo_sys 0 (line @ [length ts]) q l (ts @ [(c, Waiting)]))"
  using sys_reaches.trans [OF assms sys_step.poll [of "length ts"]]
  by (simp add: demo_simps nth_append list_update_append)

lemma demo_waiting:
  "demo_reaches (demo_sys 0 [1] 1 Reaping [(''c0'', Serving), (''c1'', Waiting)])"
proof -
  from demo_accepting [OF demo_start]
  have "demo_reaches (demo_sys 1 [] 2 Accepting [])" by simp
  from demo_accept(1) [OF this, of 0 "''c0''"]
  have "demo_reaches (demo_sys 0 [] 2 Reaping [(''c0'', Serving)])" by simp
  from demo_accepting [OF this]
  have "demo_reaches (demo_sys 0 [] 2 Accepting [(''c0'', Serving)])" by simp
  from demo_accept(2) [OF this, of "''c1''"]
  have "demo_reaches (demo_sys 0 [] (Suc 1) (Queueing ''c1'') [(''c0'', Serving)])"
    by (simp add: numeral_2_eq_2)
  from demo_queue [OF this]
  have "demo_reaches (demo_sys 0 [] 1 Reaping ([(''c0'', Serving)] @ [(''c1'', Unpolled)]))" .
  from demo_poll [OF this] show ?thesis by simp
qed

lemma demo_line:
  "demo_reaches (demo_sys 0 [1, 2] 0 Reaping [(''c0'', Serving), (''c1'', Waiting), (''c2'', Waiting)])"
proof -
  from demo_accepting [OF demo_waiting]
  have "demo_reaches (demo_sys 0 [1] 1 Accepting [(''c0'', Serving), (''c1'', Waiting)])" by simp
  from demo_accept(2) [OF this, of "''c2''"]
  have "demo_reaches (demo_sys 0 [1] (Suc 0) (Queueing ''c2'') [(''c0'', Serving), (''c1'', Waiting)])"
    by simp
  from demo_poll [OF demo_queue [OF this]] show ?thesis by (simp add: numeral_2_eq_2)
qed

lemma demo_fourth:
  "demo_reaches (demo_sys 0 [1, 2] 0 (Queueing ''c3'')
     [(''c0'', Serving), (''c1'', Waiting), (''c2'', Waiting)])"
  using demo_accept(2) [OF demo_accepting [OF demo_line]] by simp

section \<open>Limits\<close>

definition serving :: "('sem, 'tok, 'c) sys \<Rightarrow> nat" where
  "serving s = count_if holds_permit (phases s)"

definition queued :: "('sem, 'tok, 'c) sys \<Rightarrow> nat" where
  "queued s = count_if holds_slot (phases s)"

definition unfinished :: "('sem, 'tok, 'c) sys \<Rightarrow> nat" where
  "unfinished s = count_if (\<lambda>ph. ph \<noteq> Gone) (phases s)"

lemma unfinished_le: "unfinished s \<le> serving s + queued s"
proof -
  have "count_if (\<lambda>ph. ph \<noteq> Gone) phs \<le> count_if holds_permit phs + count_if holds_slot phs" for phs
  proof (induction phs)
    case (Cons ph phs)
    then show ?case by (cases ph) (simp_all add: count_simps)
  qed simp
  then show ?thesis by (simp add: unfinished_def serving_def queued_def)
qed

text \<open>
  C1: at every moment, however the tasks interleave, the connections being served are at most
  \<open>max_connections\<close> and those in the queue at most \<open>max_queue\<close>, so there are never more tasks alive
  than both together; and no permit is ever lost or made up: the free ones are what is left.
\<close>

theorem connection_limits:
  assumes "semaphore S permits waiters opened"
    and "proxy_server_new S factory bal cfg tok max_connections max_queue addr buf_size = Some srv"
    and "sys_reaches S T (sys_start srv ps now) s"
  shows "serving s \<le> unat max_connections \<and> queued s \<le> unat max_queue
    \<and> unfinished s \<le> unat max_connections + unat max_queue
    \<and> permits (open_sem s) = unat max_connections - serving s
    \<and> permits (queue_sem s) = unat max_queue - queued s"
proof -
  from semaphore.reachable_gate [OF assms]
  have "permits (open_sem s) + serving s = unat max_connections"
    "permits (queue_sem s) + queued s = unat max_queue"
    by (simp_all add: sys_gate_def gate_inv_def serving_def queued_def)
  with unfinished_le [of s] show ?thesis by linarith
qed

theorem connection_limits_witness:
  "serving (demo_sys 0 [1] 1 Reaping [(''c0'', Serving), (''c1'', Waiting)]) \<le> 1"
  using connection_limits [OF fifo.semaphore_axioms demo_srv_new demo_waiting] by simp

text \<open>
  C23: the proxy never keeps a connection waiting while it could serve it: as soon as the task of a
  queued connection is in line for a permit, as many connections as allowed are being served.
\<close>

theorem waiting_only_at_capacity:
  assumes "semaphore S permits waiters opened"
    and "proxy_server_new S factory bal cfg tok max_connections max_queue addr buf_size = Some srv"
    and "sys_reaches S T (sys_start srv ps now) s" "Waiting \<in> set (phases s)"
  shows "serving s = unat max_connections"
proof -
  note inv = semaphore.reachable_gate [OF assms(1-3)]
  from assms(4) obtain i where "i < length (phases s)" "phases s ! i = Waiting"
    by (metis in_set_conv_nth)
  with inv have "i \<in> set (waiters (open_sem s))" by (simp add: sys_gate_def gate_inv_def)
  then have "waiters (open_sem s) \<noteq> []" by auto
  moreover have "opened (open_sem s)" using inv by (simp add: sys_gate_def gate_inv_def)
  ultimately have "permits (open_sem s) = 0" using semaphore.fair [OF assms(1)] by blast
  with inv show ?thesis by (simp add: sys_gate_def gate_inv_def serving_def)
qed

theorem waiting_only_at_capacity_witness:
  "serving (demo_sys 0 [1] 1 Reaping [(''c0'', Serving), (''c1'', Waiting)]) = 1"
  using waiting_only_at_capacity [OF fifo.semaphore_axioms demo_srv_new demo_waiting]
  by (simp add: demo_sys_def phases_def spawned_def)

section \<open>Order of service\<close>

text \<open>
  How the line for permits changes in a step: somebody joins at its end, the first is served, one
  that is aborted leaves, or nothing happens.
\<close>

definition line_moves :: "nat list \<Rightarrow> nat list \<Rightarrow> task_phase list \<Rightarrow> task_phase list \<Rightarrow> bool" where
  "line_moves line line' phs phs' \<longleftrightarrow>
     (line' = line \<and> (\<forall>i < length phs. phs ! i = Waiting \<longleftrightarrow> phs' ! i = Waiting))
     \<or> (\<exists>i < length phs. phs ! i = Unpolled \<and> line' = line @ [i] \<and> phs' = phs[i := Waiting])
     \<or> (\<exists>i. line = i # line' \<and> phs' ! i = Granted)
     \<or> (\<exists>i < length phs. phs ! i = Waiting \<and> line' = remove1 i line \<and> phs' = phs[i := Leaving])"

lemma line_moves_append: "line_moves line line phs (phs @ [ph])"
  by (simp add: line_moves_def nth_append)

lemma line_moves_update:
  "i < length phs \<Longrightarrow> phs ! i \<noteq> Waiting \<Longrightarrow> ph \<noteq> Waiting \<Longrightarrow> line_moves line line phs (phs[i := ph])"
  by (simp add: line_moves_def nth_list_update)

lemma line_moves_refl: "line_moves line line phs phs"
  by (simp add: line_moves_def)

context semaphore
begin

lemma release_open_line:
  assumes "gate m q (open_sem s) (queue_sem s) (phases s)" "i < length (conn_tasks s)"
    and "holds_permit (phases s ! i)" "ph \<in> {Leaving, Gone}"
    and "holds_slot ph \<longleftrightarrow> holds_slot (phases s ! i)"
  shows "line_moves (waiters (open_sem s)) (waiters (open_sem (release_open S (set_phase i ph s))))
           (phases s) (phases (release_open S (set_phase i ph s)))"
proof (cases "sem_release S (open_sem s)")
  case (Pair who os')
  have i: "i < length (phases s)" using assms(2) by simp
  have os: "opened (open_sem s)" using assms(1) by (simp add: gate_inv_def)
  have "0 < count_if holds_permit (phases s)" using i assms(3) by (rule count_if_pos)
  then have free: "permits (open_sem s) < MAX_PERMITS" using assms(1) by (simp add: gate_inv_def)
  show ?thesis
  proof (cases who)
    case None
    with release_NoneD [OF os free] Pair have "waiters (open_sem s) = []" "waiters os' = []" by simp_all
    moreover have "\<forall>j < length (phases s). phases s ! j = Waiting \<longleftrightarrow> (phases s)[i := ph] ! j = Waiting"
      using i assms(3,4) by (auto simp: nth_list_update)
    ultimately show ?thesis using Pair None by (simp add: release_open_def line_moves_def)
  next
    case (Some j)
    with release_SomeD [OF os free] Pair have line: "waiters (open_sem s) = j # waiters os'" by simp
    then have "j < length (phases s)" using assms(1) by (auto simp: gate_inv_def)
    with line show ?thesis using Pair Some by (simp add: release_open_def line_moves_def)
  qed
qed

lemma sys_step_line:
  assumes "sys_step S T s t" "sys_gate permits waiters opened m q s"
  shows "line_moves (waiters (open_sem s)) (waiters (open_sem t)) (phases s) (phases t)"
proof -
  have g: "gate m q (open_sem s) (queue_sem s) (phases s)" using assms(2) by (simp add: sys_gate_def)
  then have os: "opened (open_sem s)" by (simp add: gate_inv_def)
  show ?thesis
    using assms(1)
  proof (cases rule: sys_step.cases)
    case (accept p res)
    show ?thesis
    proof (cases rule: on_accept_effect [of S T p res s])
      case same
      then show ?thesis using accept by (simp add: phases_def line_moves_refl)
    next
      case (spawn os' sock)
      with try_acquire_SomeD(3) [OF os] accept show ?thesis
        by (simp add: phases_def line_moves_append)
    qed
  next
    case (queue p sock)
    show ?thesis
    proof (cases rule: on_queueing_effect [of S s p sock])
      case reject
      then show ?thesis using queue by (simp add: line_moves_refl)
    next
      case (spawn qs')
      then show ?thesis using queue by (simp add: phases_def line_moves_append)
    qed
  next
    case (poll i)
    then have i: "i < length (phases s)" "phases s ! i = Unpolled" by (simp_all add: phases_nth)
    show ?thesis
    proof (cases "sem_acquire S i (open_sem s)")
      case (Pair r os')
      with poll i acquire_ReadyD(3) [OF os] acquire_PendingD(4) [OF os] acquire_not_closed [OF os]
      show ?thesis
        by (cases r) (auto simp: on_poll_def line_moves_update, simp add: line_moves_def)
    qed
  next
    case (leave_queue i)
    then show ?thesis by (simp add: line_moves_update phases_nth)
  next
    case (finish i)
    with release_open_line [OF g, of i Gone] show ?thesis by (simp add: phases_nth)
  next
    case (leave i)
    then show ?thesis by (simp add: line_moves_update phases_nth)
  next
    case (abort i)
    have ph: "phase (conn_tasks s ! i) = phases s ! i" using abort by (simp add: phases_nth)
    show ?thesis
    proof (cases "phases s ! i")
      case Unpolled
      with abort show ?thesis by (simp add: on_abort_def ph line_moves_update)
    next
      case Waiting
      with abort forget [OF os, of i] show ?thesis
        by (auto simp: on_abort_def ph line_moves_def)
    next
      case Granted
      with abort release_open_line [OF g, of i Leaving] show ?thesis by (simp add: on_abort_def ph)
    next
      case Serving
      with abort release_open_line [OF g, of i Gone] show ?thesis by (simp add: on_abort_def ph)
    qed (use abort in \<open>simp_all add: on_abort_def ph line_moves_refl\<close>)
  qed (simp_all add: line_moves_refl)
qed

end

lemma line_moves_order:
  assumes "line_moves (xs @ i # ys @ j # zs) line' phs phs'" "distinct (xs @ i # ys @ j # zs)"
    and s: "phs ! i = Waiting" "phs ! j = Waiting" "i < length phs" "j < length phs"
    and t: "\<And>k. k \<in> set line' \<Longrightarrow> phs' ! k = Waiting"
  shows "phs' ! j \<noteq> Granted \<and> (phs' ! i = Waiting \<longrightarrow> phs' ! j = Waiting \<longrightarrow>
           (\<exists>xs' ys' zs'. line' = xs' @ i # ys' @ j # zs'))"
proof -
  have dist: "i \<noteq> j" using assms(2) by simp
  from assms(1) consider (same) "line' = xs @ i # ys @ j # zs"
    | (joins) k where "line' = xs @ i # ys @ j # (zs @ [k])"
    | (served) k where "xs @ i # ys @ j # zs = k # line'" "phs' ! k = Granted"
    | (leaves) k where "line' = remove1 k (xs @ i # ys @ j # zs)" "phs' = phs[k := Leaving]"
    unfolding line_moves_def by auto
  then show ?thesis
  proof cases
    case same
    with t [of j] show ?thesis by fastforce
  next
    case joins
    with t [of j] show ?thesis by fastforce
  next
    case served
    show ?thesis
    proof (cases xs)
      case Nil
      with served have "line' = ys @ j # zs" "k = i" by simp_all
      with t [of j] served(2) show ?thesis by simp
    next
      case (Cons x xs')
      with served have "line' = xs' @ i # ys @ j # zs" by simp
      with t [of j] show ?thesis by fastforce
    qed
  next
    case leaves
    show ?thesis
    proof (cases "k = i \<or> k = j")
      case True
      then show ?thesis using leaves s dist by auto
    next
      case False
      have "\<exists>xs' ys' zs'. remove1 k (xs @ i # ys @ j # zs) = xs' @ i # ys' @ j # zs'"
        using False by (auto simp: remove1_append)
      then obtain xs' ys' zs' where "line' = xs' @ i # ys' @ j # zs'" using leaves(1) by auto
      with t [of j] show ?thesis by fastforce
    qed
  qed
qed

text \<open>
  C6: queued connections are served first come, first served: while a task is in line behind
  another, no step gives it a permit, and both keep their order for as long as both wait.
\<close>

theorem queue_is_fifo:
  assumes "semaphore S permits waiters opened"
    and "proxy_server_new S factory bal cfg tok max_connections max_queue addr buf_size = Some srv"
    and "sys_reaches S T (sys_start srv ps now) s" "sys_step S T s t"
    and "waiters (open_sem s) = xs @ i # ys @ j # zs"
  shows "phases t ! j \<noteq> Granted \<and> (phases t ! i = Waiting \<longrightarrow> phases t ! j = Waiting \<longrightarrow>
           (\<exists>xs' ys' zs'. waiters (open_sem t) = xs' @ i # ys' @ j # zs'))"
proof -
  note inv = semaphore.reachable_gate [OF assms(1-3)]
  have s: "i < length (phases s)" "phases s ! i = Waiting" "j < length (phases s)" "phases s ! j = Waiting"
    and dist: "distinct (xs @ i # ys @ j # zs)"
    using inv assms(5) by (auto simp: sys_gate_def gate_inv_def)
  have t: "k \<in> set (waiters (open_sem t)) \<Longrightarrow> phases t ! k = Waiting" for k
    using semaphore.sys_step_gate [OF assms(1,4) inv] by (auto simp: sys_gate_def gate_inv_def)
  from semaphore.sys_step_line [OF assms(1,4) inv] line_moves_order [OF _ dist s(2,4,1,3) t] assms(5)
  show ?thesis by simp
qed

theorem queue_is_fifo_witness:
  "phases (release_open fifo_ops (set_phase 0 Gone
     (demo_sys 0 [1, 2] 0 Reaping [(''c0'', Serving), (''c1'', Waiting), (''c2'', Waiting)]))) ! 2 \<noteq> Granted"
proof -
  let ?s = "demo_sys 0 [1, 2] 0 Reaping [(''c0'', Serving), (''c1'', Waiting), (''c2'', Waiting)]"
  have step: "sys_step fifo_ops flag_ops ?s (release_open fifo_ops (set_phase 0 Gone ?s))"
    by (rule sys_step.finish) (simp_all add: demo_sys_def spawned_def)
  have "wait_queue (open_sem ?s) = [] @ 1 # [] @ 2 # []" by (simp add: demo_sys_def)
  from queue_is_fifo [OF fifo.semaphore_axioms demo_srv_new demo_line step this] show ?thesis by simp
qed

lemma length_conn_tasks [simp]:
  "length (conn_tasks (set_phase i ph s)) = length (conn_tasks s)"
  "length (conn_tasks (abort_tasks p s)) = length (conn_tasks s)"
  "length (conn_tasks (join_task i s)) = length (conn_tasks s)"
  "length (conn_tasks (release_open S s)) = length (conn_tasks s)"
  by (simp_all add: set_phase_def abort_tasks_def join_task_def release_open_def
      split: prod.split option.split)

lemma length_conn_tasks_poll_abort [simp]:
  "length (conn_tasks (on_poll S i s)) = length (conn_tasks s)"
  "length (conn_tasks (on_abort S i s)) = length (conn_tasks s)"
  by (simp_all add: on_poll_def on_abort_def split: prod.split acquire_poll.split task_phase.split)


text \<open>
  C25: a connection is dropped only when every place in the queue is taken: when the listener has
  one that found no free permit and goes back to accepting without a task for it, as many
  connections as allowed are in the queue.
\<close>

theorem rejected_only_when_queue_full:
  assumes "semaphore S permits waiters opened"
    and "proxy_server_new S factory bal cfg tok max_connections max_queue addr buf_size = Some srv"
    and "sys_reaches S T (sys_start srv ps now) s" "sys_step S T s t"
    and "listeners s p = Some (Queueing sock)" "listeners t p = Some Reaping"
    and "length (conn_tasks t) = length (conn_tasks s)"
  shows "queued s = unat max_queue"
proof -
  note inv = semaphore.reachable_gate [OF assms(1-3)]
  then have qs: "opened (queue_sem s)" by (simp add: sys_gate_def gate_inv_def)
  from assms(4) have "sem_try_acquire S (queue_sem s) = None"
  proof (cases rule: sys_step.cases)
    case (accept p' res)
    then have "p' \<noteq> p" using assms(5) by auto
    then show ?thesis using accept assms(5,6)
      by (simp add: on_accept_def split: sum.splits accept_result.splits option.splits prod.splits)
  next
    case (queue p' sock')
    show ?thesis
    proof (cases rule: on_queueing_effect [of S s p' sock'])
      case (spawn qs')
      then show ?thesis using queue assms(7) by simp
    qed
  next
    case (poll i)
    then show ?thesis using assms(5,6)
      by (simp add: on_poll_def split: prod.splits acquire_poll.splits)
  next
    case (abort i)
    then show ?thesis using assms(5,6) by (simp add: on_abort_def split: task_phase.splits)
  qed (use assms(5,6) in \<open>auto split: if_splits\<close>)
  with semaphore.try_acquire_NoneD [OF assms(1) qs] have "permits (queue_sem s) = 0" by simp
  with inv show ?thesis by (simp add: sys_gate_def gate_inv_def queued_def)
qed

theorem rejected_only_when_queue_full_witness:
  "queued (demo_sys 0 [1, 2] 0 (Queueing ''c3'')
     [(''c0'', Serving), (''c1'', Waiting), (''c2'', Waiting)]) = 2"
proof -
  let ?s = "demo_sys 0 [1, 2] 0 (Queueing ''c3'')
     [(''c0'', Serving), (''c1'', Waiting), (''c2'', Waiting)]"
  have l: "listeners ?s 80 = Some (Queueing ''c3'')" by (simp add: demo_sys_def)
  have "listeners (on_queueing fifo_ops 80 ''c3'' ?s) 80 = Some Reaping"
    "length (conn_tasks (on_queueing fifo_ops 80 ''c3'' ?s)) = length (conn_tasks ?s)"
    by (simp_all add: demo_simps)
  from rejected_only_when_queue_full [OF fifo.semaphore_axioms demo_srv_new demo_fourth
      sys_step.queue [of ?s, OF l] l this]
  show ?thesis by simp
qed


end
