(* ===== verification/Proxy_Shutdown.thy ===== *)
theory Proxy_Shutdown
  imports Proxy_Properties
begin

text \<open>
  How the server of \<open>src/proxy.rs\<close> stops: who cancels the shared token, what is true of the
  connections once the server has returned, what it returns, and that a shutdown can always be
  completed within the deadline of \<open>listen\<close>.
\<close>

section \<open>A run for the witnesses\<close>

text \<open>A signal arrives while one connection is served and one waits; both outlast the deadline.\<close>

definition demo_draining :: "(fifo_sem, bool, string) sys" where
  "demo_draining = set_listener 80 (Draining (Ok ()) (from_secs 10))
     ((demo_sys 0 [1] 1 Reaping [(''c0'', Serving), (''c1'', Waiting)])\<lparr>token := True\<rparr>)"

definition demo_aborting :: "(fifo_sem, bool, string) sys" where
  "demo_aborting = set_listener 80 (Ended (Exited (Ok ())))
     (abort_tasks 80 (demo_draining\<lparr>clock := from_secs 10\<rparr>))"

definition demo_returned :: "(fifo_sem, bool, string) sys" where
  "demo_returned = (set_listener 80 (Retired (Exited (Ok ())))
     (demo_aborting\<lparr>token := True, main_phase := Joining None\<rparr>))\<lparr>main_phase := Returned (Ok ())\<rparr>"

lemma demo_draining_reached: "demo_reaches demo_draining"
proof -
  let ?s = "demo_sys 0 [1] 1 Reaping [(''c0'', Serving), (''c1'', Waiting)]"
  let ?t = "?s\<lparr>token := True\<rparr>"
  have t: "demo_reaches ?t"
    using sys_reaches.trans [OF demo_waiting sys_step.signal] by (simp add: flag_ops_def)
  have "sys_step fifo_ops flag_ops ?t
      (set_listener 80 (Draining (Ok ()) (clock ?t + DRAIN_DEADLINE)) ?t)"
    by (rule sys_step.cancelled [of _ 80 Reaping]) (simp_all add: demo_sys_def flag_ops_def)
  from sys_reaches.trans [OF t this] show ?thesis
    by (simp add: demo_draining_def DRAIN_DEADLINE_def) (simp add: demo_sys_def)
qed

lemma demo_returned_reached: "demo_reaches demo_returned"
proof -
  have t: "demo_reaches (demo_draining\<lparr>clock := from_secs 10\<rparr>)"
    using sys_reaches.trans [OF demo_draining_reached sys_step.tick [of _ _ _ "from_secs 10"]]
    by (simp add: demo_draining_def) (simp add: demo_sys_def)
  have a: "demo_reaches demo_aborting"
    unfolding demo_aborting_def
    by (rule sys_reaches.trans [OF t sys_step.deadline [of _ _ _ "from_secs 10"]])
      (simp_all add: demo_draining_def)
  have fields: "listeners demo_aborting 80 = Some (Ended (Exited (Ok ())))"
    "main_phase demo_aborting = Joining None" "token demo_aborting = True"
    "dom (listeners demo_aborting) = {80}"
    by (simp_all add: demo_aborting_def demo_draining_def) (simp_all add: demo_sys_def)
  let ?r = "set_listener 80 (Retired (Exited (Ok ())))
     (demo_aborting\<lparr>token := True, main_phase := Joining None\<rparr>)"
  have r: "demo_reaches ?r"
    by (rule sys_reaches.trans [OF a sys_step.join [of _ None]]) (simp_all add: fields)
  have "\<forall>p l. listeners ?r p = Some l \<longrightarrow> (\<exists>x. l = Retired x)"
    using fields(4) by (auto simp: dom_def split: if_splits)
  with sys_reaches.trans [OF r sys_step.return [of _ None]] show ?thesis
    by (simp add: demo_returned_def)
qed

lemma demo_returned_fields [simp]:
  "main_phase demo_returned = Returned (Ok ())"
  "listeners demo_returned 80 = Some (Retired (Exited (Ok ())))"
  "conn_tasks demo_returned =
     [(spawned 80 ''c0'' Serving)\<lparr>aborting := True\<rparr>, (spawned 80 ''c1'' Waiting)\<lparr>aborting := True\<rparr>]"
  by (simp_all add: demo_returned_def demo_aborting_def demo_draining_def)
    (simp add: abort_tasks_def demo_sys_def spawned_def set_listener_def)

section \<open>The token\<close>

text \<open>A listener that has left its accept loop other than by a panic the main task has not seen.\<close>

fun left_loop :: "'c listener \<Rightarrow> bool" where
  "left_loop (Draining r d) = True"
| "left_loop (Ended (Exited r)) = True"
| "left_loop (Retired x) = True"
| "left_loop _ = False"

definition token_inv :: "'tok token_ops \<Rightarrow> ('sem, 'tok, 'c) sys \<Rightarrow> bool" where
  "token_inv T s \<longleftrightarrow>
     (\<forall>p l. listeners s p = Some l \<longrightarrow> left_loop l \<longrightarrow> token_cancelled T (token s))"

context cancellation
begin

lemma on_accept_token:
  assumes "token_inv T s"
  shows "token_inv T (on_accept S T p res s)"
  using assms cancel_cancels
  by (auto simp: token_inv_def on_accept_def split: sum.split accept_result.split option.split)

lemma on_joined_token:
  assumes "on_listener_joined T x (tok, fe) = (tok', fe')"
  shows "token_cancelled T tok \<Longrightarrow> token_cancelled T tok'"
    and "exit_error x \<noteq> None \<Longrightarrow> token_cancelled T tok'"
  using assms cancel_cancels by (auto simp: on_listener_joined_eq split: option.splits)

lemma sys_step_cancelled:
  assumes "sys_step S T s t" "token_cancelled T (token s)"
  shows "token_cancelled T (token t)"
  using assms(1)
proof (cases rule: sys_step.cases)
  case (accept p res)
  then show ?thesis using assms(2) cancel_cancels
    by (simp add: on_accept_def split: sum.split accept_result.split option.split)
next
  case (queue p sock)
  then show ?thesis using assms(2) by (simp add: on_queueing_def split: prod.split)
next
  case (join fe p x tok' fe')
  then show ?thesis using assms(2) on_joined_token(1) by simp
next
  case (poll i)
  then show ?thesis using assms(2) by (simp add: on_poll_def split: prod.split acquire_poll.split)
next
  case (abort i)
  then show ?thesis using assms(2) by (simp add: on_abort_def split: task_phase.split)
qed (use assms(2) cancel_cancels in simp_all)

lemma sys_step_token:
  assumes "sys_step S T s t" "token_inv T s"
  shows "token_inv T t"
  using assms(1)
proof (cases rule: sys_step.cases)
  case (accept p res)
  then show ?thesis using assms(2) by (simp add: on_accept_token)
next
  case (queue p sock)
  then show ?thesis using assms(2)
    by (auto simp: on_queueing_def token_inv_def split: prod.split)
next
  case (drained p r d)
  then show ?thesis using assms(2) by (fastforce simp: token_inv_def)
next
  case (deadline p r d)
  then show ?thesis using assms(2) by (fastforce simp: token_inv_def)
next
  case (join fe p x tok' fe')
  have "token_cancelled T tok'"
  proof (cases x)
    case (Exited r)
    then have "token_cancelled T (token s)" using join assms(2) by (fastforce simp: token_inv_def)
    then show ?thesis using join on_joined_token(1) by blast
  next
    case (JoinFailed m)
    then show ?thesis using join on_joined_token(2) [of x "token s" fe] by simp
  qed
  then show ?thesis using join by (simp add: token_inv_def)
next
  case (poll i)
  then show ?thesis using assms(2)
    by (simp add: token_inv_def on_poll_def split: prod.split acquire_poll.split)
next
  case (abort i)
  then show ?thesis using assms(2) by (simp add: token_inv_def on_abort_def split: task_phase.split)
qed (use assms(2) cancel_cancels in \<open>auto simp: token_inv_def\<close>)

lemma reachable_token:
  assumes "sys_reaches S T (sys_start srv ps now) s"
  shows "token_inv T s"
  using assms
proof (rule sys_reaches_invariant [where P = "token_inv T"])
  show "token_inv T (sys_start srv ps now)" by (simp add: token_inv_def sys_start_def)
qed (rule sys_step_token)

end

text \<open>
  C10: the listeners stop together: a listener that has left its accept loop, because of an error or
  a shutdown, or has been joined in whatever way it ended, has seen or caused the cancellation of
  the token that all others watch; and the token stays cancelled from then on.
\<close>

theorem shutdown_is_collective:
  assumes "cancellation T" "sys_reaches S T (sys_start srv ps now) s"
    and "listeners s p = Some l"
    and "(\<exists>r d. l = Draining r d) \<or> (\<exists>r. l = Ended (Exited r)) \<or> (\<exists>x. l = Retired x)"
    and "sys_reaches S T s t"
  shows "token_cancelled T (token t)"
proof -
  have "left_loop l" using assms(4) by auto
  with cancellation.reachable_token [OF assms(1,2)] assms(3) have "token_cancelled T (token s)"
    by (auto simp: token_inv_def)
  with assms(5) show ?thesis
    by (rule sys_reaches_invariant [where P = "\<lambda>s. token_cancelled T (token s)"])
      (rule cancellation.sys_step_cancelled [OF assms(1)])
qed

theorem shutdown_is_collective_witness: "token_cancelled flag_ops (token demo_returned)"
  using shutdown_is_collective [OF flag.cancellation_axioms demo_returned_reached
      demo_returned_fields(2) _ sys_reaches.refl] by simp

section \<open>The tasks of connections\<close>

text \<open>What a task's \<open>JoinSet\<close> knows of it.\<close>

definition flags :: "('sem, 'tok, 'c) sys \<Rightarrow> (u16 \<times> bool \<times> bool) list" where
  "flags s = map (\<lambda>t. (task_port t, aborting t, joined t)) (conn_tasks s)"

lemma flags_length [simp]: "length (flags s) = length (conn_tasks s)"
  by (simp add: flags_def)

lemma flags_set_phase [simp]: "flags (set_phase i ph s) = flags s"
proof (rule nth_equalityI)
  fix j assume "j < length (flags (set_phase i ph s))"
  then show "flags (set_phase i ph s) ! j = flags s ! j"
    by (cases "i = j") (simp_all add: set_phase_def flags_def)
qed simp

lemma flags_frame [simp]:
  "flags (set_listener p l s) = flags s" "flags (release_queue S s) = flags s"
  "flags (s\<lparr>open_sem := os\<rparr>) = flags s" "flags (s\<lparr>queue_sem := qs\<rparr>) = flags s"
  "flags (s\<lparr>token := t\<rparr>) = flags s" "flags (s\<lparr>clock := c\<rparr>) = flags s"
  "flags (s\<lparr>main_phase := mp\<rparr>) = flags s"
  by (simp_all add: flags_def set_listener_def release_queue_def)

lemma flags_release_open [simp]: "flags (release_open S s) = flags s"
  by (simp add: release_open_def split: prod.split option.split)

lemma flags_poll_abort [simp]:
  "flags (on_poll S i s) = flags s" "flags (on_abort S i s) = flags s"
  by (simp_all add: on_poll_def on_abort_def split: prod.split acquire_poll.split task_phase.split)

lemma listeners_poll_abort [simp]:
  "listeners (on_poll S i s) = listeners s" "listeners (on_abort S i s) = listeners s"
  by (simp_all add: on_poll_def on_abort_def split: prod.split acquire_poll.split task_phase.split)

lemma flags_abort_tasks:
  "flags (abort_tasks p s) = map (\<lambda>(q, a, j). (q, a \<or> q = p \<and> \<not> j, j)) (flags s)"
  by (auto simp: abort_tasks_def flags_def)

lemma flags_join_task:
  "i < length (conn_tasks s) \<Longrightarrow>
   flags (join_task i s) = (flags s)[i := (task_port (conn_tasks s ! i), aborting (conn_tasks s ! i), True)]"
  by (simp add: join_task_def flags_def map_update)

fun still_running :: "'c listener option \<Rightarrow> bool" where
  "still_running (Some (Ended x)) = False"
| "still_running (Some (Retired x)) = False"
| "still_running None = False"
| "still_running _ = True"

lemma on_accept_listeners:
  "\<exists>l. listeners (on_accept S T p res s) = (listeners s)(p \<mapsto> l)
     \<and> (l = Reaping \<or> (\<exists>sock. l = Queueing sock) \<or> (\<exists>e d. l = Draining (Err e) d))"
  by (auto simp: on_accept_def split: sum.split accept_result.split option.split)

text \<open>Every task belongs to a running listener, or has been joined, or has been told to stop.\<close>

definition owned_inv :: "('sem, 'tok, 'c) sys \<Rightarrow> bool" where
  "owned_inv s \<longleftrightarrow> (\<forall>(p, a, j) \<in> set (flags s). still_running (listeners s p) \<or> a \<or> j)"

lemma owned_inv_mono:
  assumes "owned_inv s" "flags t = flags s"
    and "\<And>p. still_running (listeners s p) \<Longrightarrow> still_running (listeners t p)"
  shows "owned_inv t"
  using assms unfolding owned_inv_def by fastforce

lemma owned_abort_tasks:
  assumes "owned_inv s"
  shows "owned_inv (set_listener p l (abort_tasks p s))"
proof -
  have "still_running (((listeners s)(p \<mapsto> l)) q) \<or> (a \<or> q = p \<and> \<not> j) \<or> j"
    if "(q, a, j) \<in> set (flags s)" for q a j
    using assms that by (cases "q = p") (auto simp: owned_inv_def)
  then show ?thesis by (auto simp: owned_inv_def flags_abort_tasks)
qed

lemma sys_step_owned:
  assumes "sys_step S T s t" "owned_inv s"
  shows "owned_inv t"
  using assms(1)
proof (cases rule: sys_step.cases)
  case (reap p l i)
  then show ?thesis using assms(2) set_update_subset_insert [of "flags s" i]
    by (fastforce simp: owned_inv_def flags_join_task)
next
  case (accept p res)
  obtain l where l: "listeners (on_accept S T p res s) = (listeners s)(p \<mapsto> l)"
    "still_running (Some l)" using on_accept_listeners [of S T p res s] by auto
  show ?thesis
    by (cases rule: on_accept_effect [of S T p res s])
      (use accept assms(2) l in \<open>auto simp: owned_inv_def flags_def spawned_def\<close>)
next
  case (queue p sock)
  show ?thesis
    by (cases rule: on_queueing_effect [of S s p sock])
      (use queue assms(2) in \<open>auto simp: owned_inv_def flags_def spawned_def\<close>)
next
  case (drained p r d)
  then show ?thesis using assms(2) by (fastforce simp: owned_inv_def flags_def)
next
  case (deadline p r d)
  then show ?thesis using assms(2) by (simp add: owned_abort_tasks)
next
  case (panic p l message)
  then show ?thesis using assms(2) by (simp add: owned_abort_tasks)
next
  case (join fe p x tok' fe')
  then show ?thesis by (intro owned_inv_mono [OF assms(2)]) (auto split: if_splits)
qed (auto intro!: owned_inv_mono [OF assms(2)] split: if_splits)

lemma reachable_owned:
  assumes "sys_reaches S T (sys_start srv ps now) s"
  shows "owned_inv s"
  using assms
proof (rule sys_reaches_invariant)
  show "owned_inv (sys_start srv ps now)" by (simp add: owned_inv_def sys_start_def flags_def)
qed (rule sys_step_owned)

text \<open>A joined task has ended, and has given back all it held.\<close>

definition joined_inv :: "('sem, 'tok, 'c) sys \<Rightarrow> bool" where
  "joined_inv s \<longleftrightarrow> (\<forall>t \<in> set (conn_tasks s). joined t \<longrightarrow> phase t = Gone)"

lemma joined_inv_iff:
  "joined_inv s \<longleftrightarrow> (\<forall>i < length (conn_tasks s). snd (snd (flags s ! i)) \<longrightarrow> phases s ! i = Gone)"
  by (auto simp: joined_inv_def flags_def phases_def all_set_conv_all_nth)

lemma joined_inv_update:
  assumes "joined_inv s" "i < length (conn_tasks s)" "phases s ! i \<noteq> Gone"
    and "phases t = (phases s)[i := ph]" "flags t = flags s"
  shows "joined_inv t"
proof -
  have "length (conn_tasks t) = length (conn_tasks s)" using assms(5) by (metis flags_length)
  then show ?thesis using assms by (auto simp: joined_inv_iff nth_list_update)
qed

context semaphore
begin

lemma release_open_joined:
  assumes "sys_gate permits waiters opened m q s" "i < length (conn_tasks s)"
    and "holds_permit (phases s ! i)" "ph \<in> {Leaving, Gone}" "joined_inv s"
  shows "joined_inv (release_open S (set_phase i ph s))"
proof -
  let ?u = "set_phase i ph s"
  have u: "joined_inv ?u" using assms(2,3,5) by (intro joined_inv_update [of s i ?u ph]) auto
  have g: "gate m q (open_sem s) (queue_sem s) (phases s)" using assms(1) by (simp add: sys_gate_def)
  then have os: "opened (open_sem s)" by (simp add: gate_inv_def)
  have "0 < count_if holds_permit (phases s)" using assms(2,3) by (intro count_if_pos) simp_all
  then have free: "permits (open_sem s) < MAX_PERMITS" using g by (simp add: gate_inv_def)
  obtain who os' where rel: "sem_release S (open_sem s) = (who, os')" by fastforce
  show ?thesis
  proof (cases who)
    case None
    with rel have "phases (release_open S ?u) = phases ?u" "flags (release_open S ?u) = flags ?u"
      by (simp_all add: release_open_def)
    with u show ?thesis unfolding joined_inv_iff by (metis flags_length)
  next
    case (Some j)
    with release_SomeD [OF os free] rel have "j \<in> set (waiters (open_sem s))" by simp
    then have j: "j < length (phases s)" "phases s ! j = Waiting" using g by (auto simp: gate_inv_def)
    then have "i \<noteq> j" using assms(3) by auto
    with j have "phases ?u ! j \<noteq> Gone" "j < length (conn_tasks ?u)" by simp_all
    from joined_inv_update [OF u this(2,1), of "release_open S ?u" Granted] rel Some
    show ?thesis by (simp add: release_open_def)
  qed
qed

lemma sys_step_joined:
  assumes "sys_step S T s t" "sys_gate permits waiters opened m q s" "joined_inv s"
  shows "joined_inv t"
  using assms(1)
proof (cases rule: sys_step.cases)
  case (reap p l i)
  then have "phases s ! i = Gone" by (simp add: phases_nth joinable_def)
  with reap assms(3) show ?thesis
    by (auto simp: joined_inv_iff flags_join_task nth_list_update)
next
  case (accept p res)
  show ?thesis
    by (cases rule: on_accept_effect [of S T p res s])
      (use accept assms(3) in \<open>auto simp: joined_inv_def spawned_def\<close>)
next
  case (queue p sock)
  show ?thesis
    by (cases rule: on_queueing_effect [of S s p sock])
      (use queue assms(3) in \<open>auto simp: joined_inv_def spawned_def\<close>)
next
  case (deadline p r d)
  then show ?thesis using assms(3) by (auto simp: joined_inv_def abort_tasks_def)
next
  case (panic p l message)
  then show ?thesis using assms(3) by (auto simp: joined_inv_def abort_tasks_def)
next
  case (poll i)
  then show ?thesis using assms(3) joined_inv_update [of s i "on_poll S i s"]
    by (auto simp: on_poll_def phases_nth split: prod.splits acquire_poll.splits)
next
  case (leave_queue i)
  then show ?thesis using assms(3) joined_inv_update [of s i t Serving] by (simp add: phases_nth)
next
  case (finish i)
  then show ?thesis using release_open_joined [OF assms(2), of i Gone] assms(3) by (simp add: phases_nth)
next
  case (leave i)
  then show ?thesis using assms(3) joined_inv_update [of s i t Gone] by (simp add: phases_nth)
next
  case (abort i)
  have ph: "phase (conn_tasks s ! i) = phases s ! i" using abort by (simp add: phases_nth)
  show ?thesis
  proof (cases "phases s ! i")
    case Granted
    with abort release_open_joined [OF assms(2), of i Leaving] assms(3) show ?thesis
      by (simp add: on_abort_def ph)
  next
    case Serving
    with abort release_open_joined [OF assms(2), of i Gone] assms(3) show ?thesis
      by (simp add: on_abort_def ph)
  qed (use abort assms(3) joined_inv_update [of s i t Leaving] in \<open>simp_all add: on_abort_def ph\<close>)
qed (use assms(3) in \<open>simp_all add: joined_inv_def\<close>)

lemma reachable_joined:
  assumes "proxy_server_new S factory bal cfg tok max_connections max_queue addr buf_size = Some srv"
    and "sys_reaches S T (sys_start srv ps now) s"
  shows "joined_inv s"
proof -
  let ?P = "\<lambda>s. sys_gate permits waiters opened (unat max_connections) (unat max_queue) s \<and> joined_inv s"
  from assms(2) have "?P s"
  proof (rule sys_reaches_invariant)
    show "?P (sys_start srv ps now)" using sys_start_gate [OF assms(1)]
      by (simp add: joined_inv_def) (simp add: sys_start_def)
  qed (use sys_step_gate sys_step_joined in blast)
  then show ?thesis ..
qed

end

section \<open>The result of the server\<close>

definition all_retired :: "('sem, 'tok, 'c) sys \<Rightarrow> bool" where
  "all_retired s \<longleftrightarrow> (\<forall>p l. listeners s p = Some l \<longrightarrow> (\<exists>x. l = Retired x))"

definition failed_with :: "('sem, 'tok, 'c) sys \<Rightarrow> proxy_error \<Rightarrow> bool" where
  "failed_with s e \<longleftrightarrow> (\<exists>p x. listeners s p = Some (Retired x) \<and> exit_error x = Some e)"

lemma not_failed:
  "(\<forall>e. \<not> failed_with s e) \<longleftrightarrow> (\<forall>p x. listeners s p = Some (Retired x) \<longrightarrow> exit_error x = None)"
  unfolding failed_with_def by (metis not_Some_eq)

lemma all_retired_stopped: "all_retired s \<Longrightarrow> \<not> still_running (listeners s p)"
  by (cases "listeners s p") (fastforce simp: all_retired_def)+

lemma on_accept_main [simp]:
  "main_phase (on_accept S T p res s) = main_phase s"
  by (simp add: on_accept_def split: sum.split accept_result.split option.split prod.split)

lemma on_queueing_frame [simp]:
  "main_phase (on_queueing S p sock s) = main_phase s"
  "listeners (on_queueing S p sock s) = (listeners s)(p \<mapsto> Reaping)"
  by (simp_all add: on_queueing_def split: prod.split)

lemma poll_abort_main [simp]:
  "main_phase (on_poll S i s) = main_phase s" "main_phase (on_abort S i s) = main_phase s"
  by (simp_all add: on_poll_def on_abort_def split: prod.split acquire_poll.split task_phase.split)

text \<open>Only the main task joins listeners and returns; the others leave joined listeners alone.\<close>

lemma sys_step_main:
  assumes "sys_step S T s t"
  obtains (other) "main_phase t = main_phase s"
      "\<And>p x. listeners t p = Some (Retired x) \<longleftrightarrow> listeners s p = Some (Retired x)"
      "all_retired s \<Longrightarrow> all_retired t"
  | (join) fe p x tok' fe' where "main_phase s = Joining fe" "listeners s p = Some (Ended x)"
      "on_listener_joined T x (token s, fe) = (tok', fe')" "main_phase t = Joining fe'"
      "listeners t = (listeners s)(p \<mapsto> Retired x)"
  | (return) fe where "main_phase s = Joining fe" "all_retired s"
      "main_phase t = Returned (run_result fe)" "listeners t = listeners s"
proof -
  have same: thesis if "main_phase t = main_phase s" "listeners t = listeners s"
    using that by (intro other) (simp_all add: all_retired_def)
  have update: thesis
    if "main_phase t = main_phase s" "listeners t = (listeners s)(p \<mapsto> l)" "listeners s p = Some l0"
      "\<And>x. l0 \<noteq> Retired x" "\<And>x. l \<noteq> Retired x" for p l l0
  proof (rule other)
    show "main_phase t = main_phase s" using that(1) .
    show "listeners t q = Some (Retired x) \<longleftrightarrow> listeners s q = Some (Retired x)" for q x
      using that(2-5) by auto
    show "all_retired t" if "all_retired s"
      using that \<open>listeners s p = Some l0\<close> \<open>\<And>x. l0 \<noteq> Retired x\<close> by (auto simp: all_retired_def)
  qed
  from assms show thesis
  proof (cases rule: sys_step.cases)
    case (accept p res)
    with on_accept_listeners [of S T p res s] show thesis by (auto intro: update)
  next
    case (cancelled p l)
    then show thesis by (intro update [of p _ l]) auto
  next
    case (panic p l message)
    then show thesis by (intro update [of p _ l]) auto
  next
    case (join fe p x tok' fe')
    then show thesis by (intro that(2)) simp_all
  next
    case (return fe)
    then show thesis by (intro that(3)) (simp_all add: all_retired_def)
  qed (auto intro: same update)
qed

definition main_inv :: "('sem, 'tok, 'c) sys \<Rightarrow> bool" where
  "main_inv s \<longleftrightarrow>
     (case main_phase s of
        Joining None \<Rightarrow> \<forall>e. \<not> failed_with s e
      | Joining (Some e) \<Rightarrow> failed_with s e
      | Returned (Ok u) \<Rightarrow> all_retired s \<and> (\<forall>e. \<not> failed_with s e)
      | Returned (Err e) \<Rightarrow> all_retired s \<and> failed_with s e)"

lemma sys_step_main_inv:
  assumes "sys_step S T s t" "main_inv s"
  shows "main_inv t"
  using assms(1)
proof (cases rule: sys_step_main)
  case other
  then have "failed_with t = failed_with s" by (simp add: failed_with_def fun_eq_iff)
  with other assms(2) show ?thesis
    by (auto simp: main_inv_def split: main_phase.splits option.splits sum.splits)
next
  case (join fe p x tok' fe')
  have failed: "failed_with t e \<longleftrightarrow> failed_with s e \<or> exit_error x = Some e" for e
  proof -
    have "listeners t q = Some (Retired y) \<longleftrightarrow>
        (q = p \<and> y = x) \<or> listeners s q = Some (Retired y)" for q y
      using join(2,5) by auto
    then show ?thesis by (auto simp: failed_with_def)
  qed
  show ?thesis
  proof (cases "exit_error x")
    case None
    with join(3) have "fe' = fe" by (simp add: on_listener_joined_eq)
    with join(1,4) assms(2) failed None show ?thesis by (cases fe) (simp_all add: main_inv_def)
  next
    case (Some e)
    with join(3) have "fe' = get_or_insert fe e" by (simp add: on_listener_joined_eq)
    with join(1,4) assms(2) failed Some show ?thesis
      by (cases fe) (simp_all add: main_inv_def)
  qed
next
  case (return fe)
  then have "failed_with t = failed_with s" "all_retired t"
    by (simp_all add: failed_with_def all_retired_def fun_eq_iff)
  with return assms(2) show ?thesis by (auto simp: main_inv_def split: option.splits)
qed

lemma reachable_main:
  assumes "sys_reaches S T (sys_start srv ps now) s"
  shows "main_inv s"
  using assms
proof (rule sys_reaches_invariant)
  show "main_inv (sys_start srv ps now)" by (simp add: main_inv_def sys_start_def failed_with_def)
qed (rule sys_step_main_inv)

text \<open>
  C11: when the server has returned, no listener is left: every one has been joined. It has returned
  an error exactly when one of them failed or panicked, and then it is the error of one of those.
\<close>

theorem server_result:
  assumes "sys_reaches S T (sys_start srv ps now) s" "main_phase s = Returned r"
  shows "(\<forall>p l. listeners s p = Some l \<longrightarrow> (\<exists>x. l = Retired x))
    \<and> (case r of
         Ok _ \<Rightarrow> \<forall>p x. listeners s p = Some (Retired x) \<longrightarrow> exit_error x = None
       | Err e \<Rightarrow> \<exists>p x. listeners s p = Some (Retired x) \<and> exit_error x = Some e)"
  using reachable_main [OF assms(1)] assms(2)
  by (cases r) (auto simp: main_inv_def all_retired_def not_failed, simp add: failed_with_def)

theorem server_result_witness:
  "\<exists>x. listeners demo_returned 80 = Some (Retired x) \<and> exit_error x = None"
  using server_result [OF demo_returned_reached demo_returned_fields(1)] demo_returned_fields(2)
  by simp

text \<open>
  C4: when the server has returned, no connection is left behind: the task of each has ended and
  given back its permits, or has been told to stop.
\<close>

theorem no_connection_left_behind:
  assumes "semaphore S permits waiters opened"
    and "proxy_server_new S factory bal cfg tok max_connections max_queue addr buf_size = Some srv"
    and "sys_reaches S T (sys_start srv ps now) s" "main_phase s = Returned r"
  shows "\<forall>t \<in> set (conn_tasks s). (joined t \<and> phase t = Gone) \<or> aborting t"
proof
  fix t assume t: "t \<in> set (conn_tasks s)"
  have "all_retired s" using reachable_main [OF assms(3)] assms(4)
    by (cases r) (simp_all add: main_inv_def)
  then have "\<not> still_running (listeners s (task_port t))" by (rule all_retired_stopped)
  moreover have "(task_port t, aborting t, joined t) \<in> set (flags s)" using t by (simp add: flags_def)
  ultimately have "aborting t \<or> joined t"
    using reachable_owned [OF assms(3)] by (fastforce simp: owned_inv_def)
  with semaphore.reachable_joined [OF assms(1-3)] t show "(joined t \<and> phase t = Gone) \<or> aborting t"
    by (auto simp: joined_inv_def)
qed

theorem no_connection_left_behind_witness:
  "aborting (conn_tasks demo_returned ! 0) \<and> aborting (conn_tasks demo_returned ! 1)"
  using no_connection_left_behind [OF fifo.semaphore_axioms demo_srv_new demo_returned_reached
      demo_returned_fields(1)] by (simp add: spawned_def)

section \<open>A shutdown can always be completed\<close>

text \<open>A listener that nothing has gone wrong with; in its final wait, the deadline is in sight.\<close>

fun healthy :: "instant \<Rightarrow> 'c listener \<Rightarrow> bool" where
  "healthy c (Draining r d) = (r = Ok () \<and> d \<le> c + DRAIN_DEADLINE)"
| "healthy c (Ended x) = (x = Exited (Ok ()))"
| "healthy c _ = True"

lemma sys_reaches_trans: "sys_reaches S T t u \<Longrightarrow> sys_reaches S T s t \<Longrightarrow> sys_reaches S T s u"
  by (induction rule: sys_reaches.induct) (auto intro: sys_reaches.trans)

lemma sys_reaches_step: "sys_step S T s t \<Longrightarrow> sys_reaches S T s t"
  by (rule sys_reaches.trans [OF sys_reaches.refl])

text \<open>What can be brought about for one listener can be brought about for all.\<close>

lemma for_each_listener:
  assumes "finite (dom (listeners s))" "P s"
    and "\<And>s p l. P s \<Longrightarrow> listeners s p = Some l \<Longrightarrow> \<not> good l \<Longrightarrow>
      \<exists>t l'. sys_reaches S T s t \<and> P t \<and> listeners t = (listeners s)(p \<mapsto> l') \<and> good l'"
  shows "\<exists>t. sys_reaches S T s t \<and> P t \<and> dom (listeners t) = dom (listeners s)
    \<and> (\<forall>p l. listeners t p = Some l \<longrightarrow> good l)"
  using assms(1,2)
proof (induction "card {p. \<exists>l. listeners s p = Some l \<and> \<not> good l}" arbitrary: s rule: less_induct)
  case less
  let ?bad = "\<lambda>s. {p. \<exists>l. listeners s p = Some l \<and> \<not> good l}"
  show ?case
  proof (cases "?bad s = {}")
    case True
    then show ?thesis using less.prems(2) by (auto intro: sys_reaches.refl)
  next
    case False
    then obtain p l where p: "listeners s p = Some l" "\<not> good l" by blast
    from assms(3) [OF less.prems(2) p] obtain t l' where t: "sys_reaches S T s t" "P t"
      "listeners t = (listeners s)(p \<mapsto> l')" "good l'" by blast
    have dom: "dom (listeners t) = dom (listeners s)" using t(3) p(1) by auto
    have "?bad t \<subseteq> ?bad s - {p}" using t(3,4) by (auto split: if_splits)
    moreover have "finite (?bad s)" by (rule finite_subset [OF _ less.prems(1)]) auto
    moreover have "p \<in> ?bad s" using p by blast
    ultimately have "card (?bad t) < card (?bad s)"
      by (metis (no_types, lifting) card_Diff1_less card_mono finite_Diff order_le_less_trans)
    from less.hyps [OF this] dom less.prems(1) t(2) obtain u where
      "sys_reaches S T t u" "P u" "dom (listeners u) = dom (listeners t)"
      "\<forall>p l. listeners u p = Some l \<longrightarrow> good l" by auto
    with dom sys_reaches_trans [OF _ t(1)] show ?thesis by (intro exI [of _ u]) simp
  qed
qed

text \<open>The two stages: everybody leaves the accept loop; after the deadline everybody is joined.\<close>

definition stopping :: "'tok token_ops \<Rightarrow> instant \<Rightarrow> ('sem, 'tok, 'c) sys \<Rightarrow> bool" where
  "stopping T c s \<longleftrightarrow> clock s = c \<and> main_phase s = Joining None \<and> token_cancelled T (token s)
     \<and> (\<forall>p l. listeners s p = Some l \<longrightarrow> healthy c l)"

definition overdue :: "instant \<Rightarrow> ('sem, 'tok, 'c) sys \<Rightarrow> bool" where
  "overdue c s \<longleftrightarrow> clock s = c + DRAIN_DEADLINE \<and> main_phase s = Joining None
     \<and> (\<forall>p l. listeners s p = Some l \<longrightarrow> healthy c l \<and> left_loop l)"

lemma overdueD: "overdue c s \<Longrightarrow> listeners s p = Some l \<Longrightarrow> healthy c l \<and> left_loop l"
  by (simp add: overdue_def)

lemma stopping_leaves_loop:
  assumes "stopping T c s" "listeners s p = Some l" "l = Reaping \<or> l = Accepting"
  shows "\<exists>t l'. sys_reaches S T s t \<and> stopping T c t \<and> listeners t = (listeners s)(p \<mapsto> l') \<and> left_loop l'"
proof -
  let ?t = "set_listener p (Draining (Ok ()) (clock s + DRAIN_DEADLINE)) s"
  have "sys_reaches S T s ?t"
    using assms by (intro sys_reaches_step sys_step.cancelled) (auto simp: stopping_def)
  moreover have "stopping T c ?t" using assms(1) by (auto simp: stopping_def)
  ultimately show ?thesis by (intro exI [of _ ?t]) auto
qed

lemma stopping_step:
  assumes "stopping T c s" "listeners s p = Some l" "\<not> left_loop l"
  shows "\<exists>t l'. sys_reaches S T s t \<and> stopping T c t \<and> listeners t = (listeners s)(p \<mapsto> l') \<and> left_loop l'"
proof (cases l)
  case (Queueing sock)
  let ?t = "on_queueing S p sock s"
  have step: "sys_reaches S T s ?t" using assms(2) Queueing by (intro sys_reaches_step sys_step.queue) simp
  have "stopping T c ?t" using assms(1)
    by (auto simp: stopping_def on_queueing_def split: prod.split)
  from stopping_leaves_loop [OF this, of p Reaping S] obtain u l' where
    "sys_reaches S T ?t u" "stopping T c u" "listeners u = (listeners ?t)(p \<mapsto> l')" "left_loop l'" by auto
  with sys_reaches_trans [OF _ step] show ?thesis by (intro exI [of _ u] exI [of _ l']) simp
next
  case (Ended x)
  have "healthy c l" using assms(1,2) by (simp add: stopping_def)
  with Ended assms(3) show ?thesis by simp
qed (use assms stopping_leaves_loop [OF assms(1,2)] in simp_all)

lemma overdue_join:
  assumes "overdue c s" "listeners s p = Some (Ended x)"
  shows "\<exists>t x. sys_reaches S T s t \<and> overdue c t \<and> listeners t = (listeners s)(p \<mapsto> Retired x)"
proof -
  have x: "x = Exited (Ok ())" using overdueD [OF assms] by simp
  let ?t = "set_listener p (Retired x) (s\<lparr>token := token s, main_phase := Joining None\<rparr>)"
  have "sys_reaches S T s ?t"
    using assms x by (intro sys_reaches_step sys_step.join) (auto simp: overdue_def)
  moreover have "overdue c ?t" using assms(1) by (auto simp: overdue_def)
  ultimately show ?thesis by (intro exI [of _ ?t]) auto
qed

lemma overdue_step:
  assumes "overdue c s" "listeners s p = Some l" "\<not> (\<exists>x. l = Retired x)"
  shows "\<exists>t l'. sys_reaches S T s t \<and> overdue c t \<and> listeners t = (listeners s)(p \<mapsto> l')
    \<and> (\<exists>x. l' = Retired x)"
proof -
  have "healthy c l \<and> left_loop l" using assms(1,2) by (rule overdueD)
  with assms(3) consider (draining) r d where "l = Draining r d" | (ended) x where "l = Ended x"
    by (cases l) simp_all
  then show ?thesis
  proof cases
    case draining
    let ?t = "set_listener p (Ended (Exited r)) (abort_tasks p s)"
    have rd: "r = Ok ()" "d \<le> clock s"
      using overdueD [OF assms(1,2)] draining assms(1) by (simp_all add: overdue_def)
    have step: "sys_reaches S T s ?t"
      using assms(2) draining rd by (intro sys_reaches_step sys_step.deadline) auto
    have "overdue c ?t" using assms(1) rd by (auto simp: overdue_def)
    from overdue_join [OF this, of p _ S T] obtain u x where
      "sys_reaches S T ?t u" "overdue c u" "listeners u = (listeners ?t)(p \<mapsto> Retired x)" by auto
    with sys_reaches_trans [OF _ step] show ?thesis by (intro exI [of _ u] exI [of _ "Retired x"]) simp
  next
    case ended
    with overdue_join [OF assms(1)] assms(2) show ?thesis by blast
  qed
qed

text \<open>The deadline of a listener is never more than \<open>DRAIN_DEADLINE\<close> away.\<close>

definition deadline_inv :: "('sem, 'tok, 'c) sys \<Rightarrow> bool" where
  "deadline_inv s \<longleftrightarrow>
     (\<forall>p r d. listeners s p = Some (Draining r d) \<longrightarrow> d \<le> clock s + DRAIN_DEADLINE)"

lemma clock_poll_abort [simp]:
  "clock (on_poll S i s) = clock s" "clock (on_abort S i s) = clock s"
  "clock (on_queueing S p sock s) = clock s" "clock (on_accept S T p res s) = clock s"
  by (simp_all add: on_poll_def on_abort_def on_queueing_def on_accept_def
      split: prod.split acquire_poll.split task_phase.split sum.split accept_result.split option.split)

lemma sys_step_deadline:
  assumes "sys_step S T s t" "deadline_inv s"
  shows "deadline_inv t"
  using assms(1)
proof (cases rule: sys_step.cases)
  case (accept p res)
  have "listeners (on_accept S T p res s) q = Some (Draining r d) \<Longrightarrow>
      listeners s q = Some (Draining r d) \<or> d = clock s + DRAIN_DEADLINE" for q r d
    by (auto simp: on_accept_def split: sum.splits accept_result.splits option.splits if_splits prod.splits)
  with accept assms(2) show ?thesis by (fastforce simp: deadline_inv_def)
next
  case (tick d)
  then show ?thesis using assms(2) by (fastforce simp: deadline_inv_def)
qed (use assms(2) in \<open>auto simp: deadline_inv_def split: if_splits\<close>)

lemma reachable_deadline:
  assumes "sys_reaches S T (sys_start srv ps now) s"
  shows "deadline_inv s"
  using assms
proof (rule sys_reaches_invariant)
  show "deadline_inv (sys_start srv ps now)" by (simp add: deadline_inv_def sys_start_def)
qed (rule sys_step_deadline)

lemma dom_invariant:
  assumes "sys_step S T s t"
  shows "dom (listeners t) = dom (listeners s)"
  using assms
proof (cases rule: sys_step.cases)
  case (accept p res)
  then have "p \<in> dom (listeners s)" by auto
  moreover obtain l where "listeners (on_accept S T p res s) = (listeners s)(p \<mapsto> l)"
    using on_accept_listeners [of S T p res s] by blast
  ultimately show ?thesis using accept(1) by (simp add: insert_absorb)
qed auto

lemma reachable_finite:
  assumes "sys_reaches S T (sys_start srv ps now) s"
  shows "finite (dom (listeners s))"
  using assms
proof (rule sys_reaches_invariant)
  show "finite (dom (listeners (sys_start srv ps now)))"
    by (rule finite_subset [of _ "set ps"]) (auto simp: sys_start_def split: if_splits)
qed (simp add: dom_invariant)

lemma shutdown_from_cancelled:
  fixes s :: "('sem, 'tok, 'c) sys"
  assumes "token_cancelled T (token s)" "finite (dom (listeners s))" "main_phase s = Joining None"
    and "\<forall>p l. listeners s p = Some l \<longrightarrow> healthy (clock s) l"
  shows "\<exists>t. sys_reaches S T s t \<and> main_phase t = Returned (Ok ()) \<and> clock t = clock s + DRAIN_DEADLINE"
proof -
  let ?c = "clock s"
  have each: "\<exists>t l'. sys_reaches S T s t \<and> stopping T ?c t \<and> listeners t = (listeners s)(p \<mapsto> l')
      \<and> left_loop l'"
    if "stopping T ?c s" "listeners s p = Some l" "\<not> left_loop l"
    for s :: "('sem, 'tok, 'c) sys" and p l
    using that by (rule stopping_step)
  have each': "\<exists>t l'. sys_reaches S T s t \<and> overdue ?c t \<and> listeners t = (listeners s)(p \<mapsto> l')
      \<and> (\<exists>x. l' = Retired x)"
    if "overdue ?c s" "listeners s p = Some l" "\<not> (\<exists>x. l = Retired x)"
    for s :: "('sem, 'tok, 'c) sys" and p l
    using that by (rule overdue_step)
  have "stopping T ?c s" using assms by (simp add: stopping_def)
  then obtain t where t: "sys_reaches S T s t" "stopping T ?c t"
    "dom (listeners t) = dom (listeners s)" "\<forall>p l. listeners t p = Some l \<longrightarrow> left_loop l"
    using for_each_listener [of s "stopping T ?c" left_loop S T] each assms(2) by auto
  let ?t = "t\<lparr>clock := clock t + DRAIN_DEADLINE\<rparr>"
  have t1: "sys_reaches S T t ?t" by (intro sys_reaches_step sys_step.tick)
  have "overdue ?c ?t" using t(2,4) by (simp add: overdue_def stopping_def)
  moreover have "finite (dom (listeners ?t))" using t(3) assms(2) by simp
  ultimately obtain u where u: "sys_reaches S T ?t u" "overdue ?c u"
    "\<forall>p l. listeners u p = Some l \<longrightarrow> (\<exists>x. l = Retired x)"
    using for_each_listener [of ?t "overdue ?c" "\<lambda>l. \<exists>x. l = Retired x" S T] each' by auto
  let ?u = "u\<lparr>main_phase := Returned (run_result None)\<rparr>"
  have "sys_reaches S T u ?u"
    using u(2,3) by (intro sys_reaches_step sys_step.return) (simp_all add: overdue_def)
  with t(1) t1 u(1) have "sys_reaches S T s ?u" by (meson sys_reaches_trans)
  then show ?thesis using u(2) by (intro exI [of _ ?u]) (simp add: overdue_def)
qed

lemma shutdown_from_healthy:
  assumes "cancellation T" "finite (dom (listeners s))" "main_phase s = Joining None"
    and "\<forall>p l. listeners s p = Some l \<longrightarrow> healthy (clock s) l"
  shows "\<exists>t. sys_reaches S T s t \<and> main_phase t = Returned (Ok ()) \<and> clock t = clock s + DRAIN_DEADLINE"
proof -
  let ?s = "s\<lparr>token := token_cancel T (token s)\<rparr>"
  have "sys_reaches S T s ?s" by (intro sys_reaches_step sys_step.signal)
  moreover obtain t where "sys_reaches S T ?s t" "main_phase t = Returned (Ok ())"
    "clock t = clock s + DRAIN_DEADLINE"
    using shutdown_from_cancelled [of T ?s S] assms by (auto simp: cancellation.cancel_cancels)
  ultimately show ?thesis by (meson sys_reaches_trans)
qed

lemma healthy_listeners:
  assumes "sys_reaches S T (sys_start srv ps now) s"
    and "\<forall>p e d. listeners s p \<noteq> Some (Draining (Err e) d)"
    and "\<forall>p x. listeners s p = Some (Ended x) \<longrightarrow> exit_error x = None"
  shows "\<forall>p l. listeners s p = Some l \<longrightarrow> healthy (clock s) l"
proof (intro allI impI)
  fix p l assume l: "listeners s p = Some l"
  show "healthy (clock s) l"
  proof (cases l)
    case (Draining r d)
    with assms(2) l have "r = Ok ()" by (cases r) auto
    with Draining l reachable_deadline [OF assms(1)] show ?thesis by (simp add: deadline_inv_def)
  next
    case (Ended x)
    with assms(3) l have "exit_error x = None" by blast
    with Ended show ?thesis by (cases x rule: exit_error.cases) simp_all
  qed simp_all
qed

text \<open>
  C5: the server can always be shut down, and in time: from any moment at which it is running and
  no listener has failed, there is a run that returns success no later than the drain deadline of
  ten seconds after it, whatever the connections are doing.
\<close>

theorem shutdown_possible_in_time:
  assumes "cancellation T" "sys_reaches S T (sys_start srv ps now) s" "main_phase s = Joining None"
    and "\<forall>p e d. listeners s p \<noteq> Some (Draining (Err e) d)"
    and "\<forall>p x. listeners s p = Some (Ended x) \<longrightarrow> exit_error x = None"
  shows "\<exists>t. sys_reaches S T s t \<and> main_phase t = Returned (Ok ()) \<and> clock t = clock s + from_secs 10"
  using shutdown_from_healthy [OF assms(1) reachable_finite [OF assms(2)] assms(3)
      healthy_listeners [OF assms(2,4,5)], of S]
  by (simp add: DRAIN_DEADLINE_def)

theorem shutdown_possible_in_time_witness:
  "\<exists>t. sys_reaches fifo_ops flag_ops demo_draining t \<and> main_phase t = Returned (Ok ())
     \<and> clock t = from_secs 10"
proof -
  have fields: "main_phase demo_draining = Joining None" "clock demo_draining = 0"
    "listeners demo_draining = [80 \<mapsto> Draining (Ok ()) (from_secs 10)]"
    by (simp_all add: demo_draining_def) (simp_all add: demo_sys_def)
  from shutdown_possible_in_time [OF flag.cancellation_axioms demo_draining_reached fields(1)]
  show ?thesis by (simp add: fields(2,3))
qed

end
