(* ===== verification/Program.thy ===== *)
theory Program
  imports RR_Properties Proxy_Shutdown
begin

text \<open>
  \<open>src/main.rs\<close> and \<open>src/logswriter.rs\<close>: the command line, the start of the program and its exit
  code.
\<close>

section \<open>The command line\<close>

datatype logs_writer = Stderr

fun show_logs_writer :: "logs_writer \<Rightarrow> string" where
  "show_logs_writer Stderr = ''stderr''"

record args =
  arg_config :: string
  max_connections :: usize
  max_queue :: usize
  arg_logs_writer :: logs_writer
  arg_bind :: ip_addr
  copy_buffer_size :: usize

text \<open>The arguments when only \<open>--config\<close> is given.\<close>

definition default_args :: "string \<Rightarrow> args" where
  "default_args config =
     \<lparr>arg_config = config, max_connections = 10000, max_queue = 100, arg_logs_writer = Stderr,
      arg_bind = V6 [0, 0, 0, 0, 0, 0, 0, 0], copy_buffer_size = 8 * 1024\<rparr>"

section \<open>The start of the program\<close>

text \<open>\<open>run\<close> up to the join loop of the server: an error, a panic, or the running server.\<close>

datatype 's startup = Failed proxy_error | Panicked | Started 's

definition program_start ::
  "'sem semaphore_ops \<Rightarrow> 'tok token_ops \<Rightarrow> 'c arc_swap_ops \<Rightarrow> 'n net_error_ops
   \<Rightarrow> (string \<Rightarrow> io_error + string) \<Rightarrow> (string \<Rightarrow> json_error + raw_config)
   \<Rightarrow> ('w \<Rightarrow> ('n + 'rb) \<times> 'w) \<Rightarrow> ('rb \<Rightarrow> 'w \<Rightarrow> ('n + 'r) \<times> 'w) \<Rightarrow> (unit, 'h, 'w) bind_op
   \<Rightarrow> args \<Rightarrow> instant \<Rightarrow> 'w
   \<Rightarrow> ((unit, rr_balancer \<times> 'c simple_cooldown_handler \<times> 'r, 'sem, 'tok) proxy_server
        \<times> ('sem, 'tok, 'conn) sys) startup \<times> 'w" where
  "program_start S T A N read_to_string from_str builder_tokio build bindf args now w =
     (case load_from_file read_to_string from_str (arg_config args) of
        Err e \<Rightarrow> (Failed e, w)
      | Ok raw_config \<Rightarrow>
     (case proxy_config_try_from raw_config of
        Err e \<Rightarrow> (Failed e, w)
      | Ok config \<Rightarrow>
     (case target_state_try_from A raw_config of
        Err e \<Rightarrow> (Failed e, w)
      | Ok target_state \<Rightarrow>
     (case builder_tokio w of
        (Err e, w1) \<Rightarrow> (Failed (from_net_error N e), w1)
      | (Ok builder, w1) \<Rightarrow>
     (case build builder w1 of
        (Err e, w2) \<Rightarrow> (Failed (from_net_error N e), w2)
      | (Ok resolver, w2) \<Rightarrow>
     (case proxy_server_new S () (rr_new config, simple_cooldown_handler_new target_state, resolver)
             config (token_new T) (max_connections args) (max_queue args) (arg_bind args)
             (copy_buffer_size args) of
        None \<Rightarrow> (Panicked, w2)
      | Some srv \<Rightarrow>
     (case proxy_run bindf srv now w2 of
        (Err e, w3) \<Rightarrow> (Failed e, w3)
      | (Ok sys, w3) \<Rightarrow> (Started (srv, sys), w3))))))))"



lemma program_start_StartedD:
  assumes "program_start S T A N rd js builder build bindf args now w = (Started (srv, sys), w')"
  obtains raw cfg ts r w2 where "load_from_file rd js (arg_config args) = Ok raw"
    "proxy_config_try_from raw = Ok cfg" "target_state_try_from A raw = Ok ts"
    "proxy_server_new S () (rr_new cfg, simple_cooldown_handler_new ts, r) cfg (token_new T)
       (max_connections args) (max_queue args) (arg_bind args) (copy_buffer_size args) = Some srv"
    "proxy_run bindf srv now w2 = (Ok sys, w')"
  using assms
  by (auto simp: program_start_def split: sum.splits prod.splits option.splits)

text \<open>
  C28: a program that starts has loaded a configuration without duplicate ports, and runs one
  listener, in its accept loop, for exactly the ports of the configuration; no connection exists,
  the semaphores hold the limits of the command line, and every target of every port is up.
\<close>

theorem program_started:
  assumes "semaphore S permits waiters opened" "arc_swap A"
    and "program_start S T A N rd js builder build bindf args now w = (Started (srv, sys), w')"
  shows "\<exists>raw cfg h r. load_from_file rd js (arg_config args) = Ok raw
    \<and> proxy_config_try_from raw = Ok cfg \<and> distinct (configured_ports raw)
    \<and> balancer srv = (rr_new cfg, h, r)
    \<and> listeners sys = (\<lambda>p. if p \<in> set (configured_ports raw) then Some Reaping else None)
    \<and> conn_tasks sys = [] \<and> permits (open_sem sys) = unat (max_connections args)
    \<and> permits (queue_sem sys) = unat (max_queue args)
    \<and> (\<forall>p pool t. get_pool cfg p = Some pool \<longrightarrow> t \<in> set pool \<longrightarrow>
         handler_get_target_status A h t = Ok (Alive None))"
proof -
  from assms(3) obtain raw cfg ts r w2 where raw: "load_from_file rd js (arg_config args) = Ok raw"
    and cfg: "proxy_config_try_from raw = Ok cfg" and ts: "target_state_try_from A raw = Ok ts"
    and srv: "proxy_server_new S () (rr_new cfg, simple_cooldown_handler_new ts, r) cfg (token_new T)
       (max_connections args) (max_queue args) (arg_bind args) (copy_buffer_size args) = Some srv"
    and run: "proxy_run bindf srv now w2 = (Ok sys, w')"
    by (rule program_start_StartedD)
  have sys: "sys = sys_start srv (server_ports srv) now" using run by (rule proxy_run_OkD)
  have fields: "balancer srv = (rr_new cfg, simple_cooldown_handler_new ts, r)"
    "server_ports srv = ports cfg"
    "permits (open_connections srv) = unat (max_connections args)"
    "permits (queued_connections srv) = unat (max_queue args)"
    using srv semaphore.new_SomeD(2) [OF assms(1)]
    by (auto simp: proxy_server_new_def split: option.splits)
  have "handler_get_target_status A (simple_cooldown_handler_new ts) t = Ok (Alive None)"
    if "get_pool cfg p = Some pool" "t \<in> set pool" for p pool t
    using pool_target_status [OF assms(2) cfg ts that]
    by (simp add: handler_get_target_status_def simple_cooldown_handler_new_def)
  moreover have "set (ports cfg) = set (configured_ports raw)" "distinct (configured_ports raw)"
    using cfg by (simp_all add: ports_ok proxy_config_OkD)
  ultimately show ?thesis
    using raw cfg fields by (auto simp: sys sys_start_def)
qed

lemma sample_start:
  "\<exists>srv (sys :: (fifo_sem, bool, string) sys). program_start fifo_ops flag_ops plain_cell plain_net_error
       (\<lambda>path. Ok ''json'') (\<lambda>text. Ok sample_raw) (\<lambda>w. (Ok (), w)) (\<lambda>b w. (Ok (), w)) (\<lambda>f a w. (Ok (), w))
       (default_args ''config.json'') 0 () = (Started (srv, sys), ())"
proof -
  obtain ts where ts: "target_state_try_from plain_cell sample_raw = Ok ts"
    by (simp add: target_state_try_from_def)
  obtain srv where srv: "proxy_server_new fifo_ops () (rr_new sample_config,
      simple_cooldown_handler_new ts, ()) sample_config (token_new flag_ops) 10000 100
      (V6 [0, 0, 0, 0, 0, 0, 0, 0]) (8 * 1024) = Some srv"
    by (simp add: proxy_server_new_def fifo_ops_def MAX_PERMITS_def)
  have binds: "\<exists>ls. bind_ports (\<lambda>f a w. (Ok (), w)) f ip ps bound () = (Ok ls, ())"
    for f :: unit and ip ps and bound :: "(u16 \<times> unit) list"
    by (induction ps arbitrary: bound) (simp_all add: Let_def)
  obtain sys :: "(fifo_sem, bool, string) sys"
    where run: "proxy_run (\<lambda>f a w. (Ok (), w)) srv 0 () = (Ok sys, ())"
    using binds [of "listener_factory srv" "bind_addr srv" "server_ports srv" "[]"]
    by (auto simp: proxy_run_def)
  have "load_from_file (\<lambda>path. Ok ''json'') (\<lambda>text. Ok sample_raw) ''config.json'' = Ok sample_raw"
    by (simp add: load_from_file_def)
  with ts srv run sample_config_ok show ?thesis by (simp add: program_start_def default_args_def)
qed

theorem program_started_witness:
  "\<exists>srv (sys :: (fifo_sem, bool, string) sys). program_start fifo_ops flag_ops plain_cell plain_net_error (\<lambda>path. Ok ''json'')
       (\<lambda>text. Ok sample_raw) (\<lambda>w. (Ok (), w)) (\<lambda>b w. (Ok (), w)) (\<lambda>f a w. (Ok (), w))
       (default_args ''config.json'') 0 () = (Started (srv, sys), ())
     \<and> free_permits (open_sem sys) = 10000 \<and> free_permits (queue_sem sys) = 100
     \<and> listeners sys 5002 = Some Reaping \<and> listeners sys 80 = None"
proof -
  from sample_start obtain srv and sys :: "(fifo_sem, bool, string) sys" where start:
    "program_start fifo_ops flag_ops plain_cell plain_net_error (\<lambda>path. Ok ''json'')
       (\<lambda>text. Ok sample_raw) (\<lambda>w. (Ok (), w)) (\<lambda>b w. (Ok (), w)) (\<lambda>f a w. (Ok (), w))
       (default_args ''config.json'') 0 () = (Started (srv, sys), ())" by blast
  from program_started [OF fifo.semaphore_axioms plain.arc_swap_axioms start]
  have "free_permits (open_sem sys) = 10000" "free_permits (queue_sem sys) = 100"
    "listeners sys = (\<lambda>p. if p \<in> set (configured_ports sample_raw) then Some Reaping else None)"
    by (auto simp: load_from_file_def default_args_def)
  moreover from this(3) have "listeners sys 5002 = Some Reaping" "listeners sys 80 = None"
    by (simp_all add: configured_ports_def sample_raw_def)
  ultimately show ?thesis using start by blast
qed

section \<open>The end of the program\<close>






end
