(* ===== verification/Program_Balancer.thy ===== *)
theory Program_Balancer
  imports RR_Properties
begin

text \<open>
  The balancer as \<open>run\<close> of \<open>src/main.rs\<close> builds it, from \<open>RoundRobinBalancer\<close>,
  \<open>HickoryTokioResolver\<close>, \<open>TokioConnector\<close> and \<open>SimpleCooldownHandler\<close>: the well-formed states of
  the balancer and the handler together, and the errors a connection can end with.
\<close>

section \<open>The balancer the program runs\<close>

text \<open>
  The outside world of the balancer: the resolver's lookup and errors, the operating system's
  sockets, \<open>tokio::time::timeout\<close>, the clock, and the reports other connections make to the shared
  cooldown handler, which may come between any two operations of this one.
\<close>

record ('n, 's, 'w) env_ops =
  env_lookup_ip :: "string \<Rightarrow> 'w \<Rightarrow> ('n + ip_addr list) \<times> 'w"
  env_net_error :: "'n net_error_ops"
  env_tcp_connect :: "socket_addr \<Rightarrow> 'w \<Rightarrow> ((io_error + 's) \<times> 'w) option"
  env_set_nodelay :: "'s \<Rightarrow> bool \<Rightarrow> 'w \<Rightarrow> (io_error + unit) \<times> 'w"
  env_timeout :: "duration \<Rightarrow> ('w, proxy_error + 's) future \<Rightarrow> 'w \<Rightarrow> (proxy_error + 's) option \<times> 'w"
  env_now :: "'w \<Rightarrow> instant \<times> 'w"
  env_others :: "'w \<Rightarrow> (instant \<times> instant \<times> string \<times> connect_result) list \<times> 'w"

type_synonym ('c, 'w) program_world = "'c simple_cooldown_handler \<times> 'w"

definition meanwhile ::
  "'c arc_swap_ops \<Rightarrow> ('n, 's, 'w) env_ops \<Rightarrow> ('c, 'w) program_world \<Rightarrow> ('c, 'w) program_world" where
  "meanwhile A E hw =
     (case env_others E (snd hw) of
        (rs, w) \<Rightarrow> (fold (\<lambda>(now, now', t, r) h. snd (handler_report_connection_attempt A now now' t r h))
                     rs (fst hw), w))"

text \<open>One operation of this connection, after whatever the others have done.\<close>

definition on_world ::
  "'c arc_swap_ops \<Rightarrow> ('n, 's, 'w) env_ops \<Rightarrow> ('w \<Rightarrow> 'r \<times> 'w) \<Rightarrow> ('c, 'w) program_world
   \<Rightarrow> 'r \<times> ('c, 'w) program_world" where
  "on_world A E f hw = (case meanwhile A E hw of (h, w) \<Rightarrow> (case f w of (r, w') \<Rightarrow> (r, (h, w'))))"

text \<open>
  A report reads the clock once the backend is known to be alive, and again on a failure.
\<close>

definition program_report ::
  "'c arc_swap_ops \<Rightarrow> ('n, 's, 'w) env_ops \<Rightarrow> string \<Rightarrow> connect_result \<Rightarrow> ('c, 'w) program_world
   \<Rightarrow> (proxy_error + unit) \<times> ('c, 'w) program_world" where
  "program_report A E t r hw =
     (case meanwhile A E hw of
        (h, w) \<Rightarrow>
          (let (now, w1) = (case handler_get_target_status A h t of
                              Ok (Alive cool) \<Rightarrow> env_now E w | _ \<Rightarrow> (0, w));
               (now', w2) = (case handler_get_target_status A h t of
                              Ok (Alive cool) \<Rightarrow> if r = Failure then env_now E w1 else (0, w1)
                            | _ \<Rightarrow> (0, w1));
               (res, h') = handler_report_connection_attempt A now now' t r h
           in (res, (h', w2))))"

definition program_deps ::
  "'c arc_swap_ops \<Rightarrow> ('n, 's, 'w) env_ops \<Rightarrow> (('c, 'w) program_world, 's) rr_deps" where
  "program_deps A E =
     \<lparr>lookup_host = (\<lambda>host. on_world A E (hickory_lookup_host (env_net_error E) (env_lookup_ip E) host)),
      connect_within = (\<lambda>d addr. on_world A E
        (env_timeout E d (tokio_connect (env_tcp_connect E) (env_set_nodelay E) addr))),
      get_target_status = (\<lambda>t hw. case meanwhile A E hw of
        (h, w) \<Rightarrow> (handler_get_target_status A h t, (h, w))),
      report_connection_attempt = program_report A E,
      instant_now = on_world A E (env_now E)\<rparr>"

text \<open>What every method of the balancer's collaborators keeps, a call keeps.\<close>

definition keeps :: "('w, 's) rr_deps \<Rightarrow> ('w \<Rightarrow> bool) \<Rightarrow> bool" where
  "keeps D P \<longleftrightarrow> (\<forall>w. P w \<longrightarrow>
     (\<forall>t. P (snd (lookup_host D t w))) \<and> (\<forall>d a. P (snd (connect_within D d a w)))
     \<and> (\<forall>t. P (snd (get_target_status D t w))) \<and> (\<forall>t r. P (snd (report_connection_attempt D t r w)))
     \<and> P (snd (instant_now D w)))"

lemma keepsD:
  assumes "keeps D P" "P w"
  shows "lookup_host D t w = (h, w') \<Longrightarrow> P w'" "connect_within D d a w = (c, w') \<Longrightarrow> P w'"
    "get_target_status D t w = (s, w') \<Longrightarrow> P w'"
    "report_connection_attempt D t r w = (u, w') \<Longrightarrow> P w'" "instant_now D w = (n, w') \<Longrightarrow> P w'"
  using assms unfolding keeps_def by (metis snd_conv)+

lemma connect_addrs_keeps:
  assumes "keeps D P" "P w" "connect_addrs D t xs w = (r, w')"
  shows "P w' \<and> (\<forall>e. r \<noteq> Fatal e)"
  using assms(2,3)
proof (induction xs arbitrary: w)
  case Nil
  then show ?case using keepsD(4) [OF assms(1)] by (auto split: prod.splits)
next
  case (Cons a xs)
  obtain c w1 where c: "connect_within D CONNECT_TIMEOUT a w = (c, w1)" by fastforce
  then have w1: "P w1" using keepsD(2) [OF assms(1) Cons.prems(1)] by blast
  show ?case
  proof (cases c rule: not_connected.cases)
    case (1 s)
    then show ?thesis using Cons.prems(2) c keepsD(4) [OF assms(1) w1] by (auto split: prod.splits)
  qed (use Cons.IH [OF w1] Cons.prems(2) c in simp_all)
qed

lemma connect_keeps:
  assumes "keeps D P" "P w" "connect D t w = (r, w')"
  shows "P w' \<and> (\<forall>e. r = Fatal e \<longrightarrow> (\<exists>v. fst (lookup_host D t v) = Err e) \<and> \<not> is_dns_error e)"
proof -
  obtain h w1 where h: "lookup_host D t w = (h, w1)" by fastforce
  then have w1: "P w1" using keepsD(1) [OF assms(1,2)] by blast
  show ?thesis
  proof (cases h)
    case (Inr xs)
    then show ?thesis using assms(3) h connect_addrs_keeps [OF assms(1) w1] by (auto simp: connect_def)
  next
    case (Inl e)
    have "\<exists>v. fst (lookup_host D t v) = Err e" by (rule exI [of _ w]) (simp add: h Inl)
    then show ?thesis
      using assms(3) h Inl keepsD(4) [OF assms(1) w1] w1
      by (cases e) (auto simp: connect_def split: prod.splits)
  qed
qed

text \<open>The errors a call can end with when every target has a status.\<close>

definition bad_target :: "('w, 's) rr_deps \<Rightarrow> string list \<Rightarrow> proxy_error \<Rightarrow> bool" where
  "bad_target D ts e \<longleftrightarrow> (\<exists>t \<in> set ts. \<exists>v. fst (lookup_host D t v) = Err e \<and> \<not> is_dns_error e)"

lemma try_cooling_errors:
  assumes "keeps D P" "P w" "try_cooling D p ts w = (res, w')"
  shows "P w' \<and> (\<forall>e. res = Err e \<longrightarrow> e = unable_to_connect p \<or> bad_target D ts e)"
  using assms(2,3)
proof (induction ts arbitrary: w)
  case (Cons t ts)
  obtain c w1 where c: "connect D t w = (c, w1)" by fastforce
  note ck = connect_keeps [OF assms(1) Cons.prems(1) c]
  show ?case
    using Cons.IH [of w1] Cons.prems(2) c ck by (cases c) (auto simp: bad_target_def)
qed auto

lemma scan_targets_errors:
  assumes "keeps D P" "\<And>t v. t \<in> set ts \<Longrightarrow> P v \<Longrightarrow> \<not> is_err (fst (get_target_status D t v))"
    and "P w" "scan_targets D ts cooling w = (res, w')"
  shows "P w' \<and> (\<forall>e. res = Return (Err e) \<longrightarrow> bad_target D ts e)
    \<and> (\<forall>cs. res = Exhausted cs \<longrightarrow> set cs \<subseteq> set cooling \<union> set ts)"
  using assms(2-4)
proof (induction ts arbitrary: cooling w)
  case Nil
  then show ?case by auto
next
  case (Cons t ts)
  obtain st w1 where st: "get_target_status D t w = (st, w1)" by fastforce
  with Cons.prems(1) [of t w] Cons.prems(2) obtain s where s: "st = Ok s" by (cases st) auto
  have w1: "P w1" using keepsD(3) [OF assms(1) Cons.prems(2) st] .
  have IH: "scan_targets D ts c v = (res, w') \<Longrightarrow> P v \<Longrightarrow> P w'
      \<and> (\<forall>e. res = Return (Err e) \<longrightarrow> bad_target D ts e)
      \<and> (\<forall>cs. res = Exhausted cs \<longrightarrow> set cs \<subseteq> set c \<union> set ts)" for c v
    using Cons.IH [of v c] Cons.prems(1) by auto
  have more: "bad_target D ts e \<Longrightarrow> bad_target D (t # ts) e" for e by (auto simp: bad_target_def)
  have attempt: "P w' \<and> (\<forall>e. res = Return (Err e) \<longrightarrow> bad_target D (t # ts) e)
      \<and> (\<forall>cs. res = Exhausted cs \<longrightarrow> set cs \<subseteq> set cooling \<union> set (t # ts))"
    if "P v" "connect D t v = (c, v')"
      "(case c of Ready s \<Rightarrow> (Return (Ok s), v') | TryNext \<Rightarrow> scan_targets D ts cooling v'
        | Fatal e \<Rightarrow> (Return (Err e), v')) = (res, w')" for v v' c
    using that(3) connect_keeps [OF assms(1) that(1,2)] IH [of cooling v'] more
    by (cases c) (auto simp: bad_target_def)
  show ?case
  proof (cases s)
    case Drain
    with Cons.prems(3) st s IH [of cooling w1] w1 more show ?thesis by auto
  next
    case (Alive cool)
    show ?thesis
    proof (cases cool)
      case None
      obtain c v' where "connect D t w1 = (c, v')" by fastforce
      with attempt [OF w1 this] Cons.prems(3) st s Alive None show ?thesis by simp
    next
      case (Some until)
      obtain n w2 where n: "instant_now D w1 = (n, w2)" by fastforce
      have w2: "P w2" using keepsD(5) [OF assms(1) w1 n] .
      obtain c v' where c: "connect D t w2 = (c, v')" by fastforce
      show ?thesis
      proof (cases "n < until")
        case True
        with Cons.prems(3) st s Alive Some n IH [of "cooling @ [t]" w2] w2 more show ?thesis by auto
      next
        case False
        with attempt [OF w2 c] Cons.prems(3) st s Alive Some n c show ?thesis by simp
      qed
    qed
  qed
qed

section \<open>What can go wrong with a connection of the program\<close>

definition all_known :: "'c arc_swap_ops \<Rightarrow> string list \<Rightarrow> ('c, 'w) program_world \<Rightarrow> bool" where
  "all_known A ts hw \<longleftrightarrow> (\<forall>t \<in> set ts. \<not> is_err (handler_get_target_status A (fst hw) t))"

context arc_swap
begin

lemmas handler_contract = handler.cooldown_handler_axioms

lemma meanwhile_known: "all_known A ts (meanwhile A E hw) = all_known A ts hw"
  using cooldown_handler.run_reports_known [OF handler_contract]
  by (simp add: all_known_def meanwhile_def split_def)

lemma on_world_known: "all_known A ts (snd (on_world A E f hw)) = all_known A ts hw"
  using meanwhile_known [of ts E hw] by (simp add: on_world_def all_known_def split_def)

lemma program_report_known: "all_known A ts (snd (program_report A E t r hw)) = all_known A ts hw"
proof -
  obtain h w where m: "meanwhile A E hw = (h, w)" by fastforce
  then have "fst (snd (program_report A E t r hw)) \<in>
      {snd (handler_report_connection_attempt A now now' t r h) | now now'. True}"
    by (auto simp: program_report_def split_def Let_def)
  then obtain now now' where
    "fst (snd (program_report A E t r hw)) = snd (handler_report_connection_attempt A now now' t r h)"
    by blast
  then show ?thesis
    using meanwhile_known [of ts E hw] m cooldown_handler.report_known [OF handler_contract]
    by (simp add: all_known_def)
qed

lemma program_deps_keep: "keeps (program_deps A E) (all_known A ts)"
proof -
  have "all_known A ts (snd (get_target_status (program_deps A E) t hw)) = all_known A ts hw" for t hw
    using meanwhile_known [of ts E hw] by (simp add: program_deps_def split_def)
  then show ?thesis
    unfolding keeps_def by (simp add: program_deps_def on_world_known program_report_known)
qed

lemma program_deps_status:
  assumes "all_known A ts hw" "t \<in> set ts"
  shows "\<not> is_err (fst (get_target_status (program_deps A E) t hw))"
  using assms meanwhile_known [of ts E hw] by (simp add: program_deps_def split_def all_known_def)

end

lemma hickory_lookup_host_not_dns:
  assumes "fst (hickory_lookup_host N lookup_ip host w) = Err e" "\<not> is_dns_error e"
  shows "\<exists>m. e = BadAddressError host m"
  using assms
  by (auto simp: hickory_lookup_host_def split: option.splits prod.splits sum.splits)

lemma program_bad_target:
  assumes "bad_target (program_deps A E) ts e"
  shows "\<exists>t \<in> set ts. \<exists>m. e = BadAddressError t m"
  using assms hickory_lookup_host_not_dns
  by (fastforce simp: bad_target_def program_deps_def on_world_def split_def)

section \<open>Well-formed states\<close>

text \<open>
  The routing table has each port once, in ascending order, and every port leads to a pool; the
  balancer has a counter for just these ports; and the handler knows every target of every pool.
\<close>

definition config_wf :: "proxy_config \<Rightarrow> bool" where
  "config_wf cfg \<longleftrightarrow> sorted_wrt (<) (ports cfg)
     \<and> (\<forall>(p, idx) \<in> set (port_to_pool cfg). idx < length (target_pools cfg))"

definition balancer_wf :: "rr_balancer \<Rightarrow> bool" where
  "balancer_wf self \<longleftrightarrow> config_wf (rr_config self)
     \<and> dom (port_to_rr_counter self) = set (ports (rr_config self))"

definition program_wf :: "'c arc_swap_ops \<Rightarrow> rr_balancer \<Rightarrow> 'c simple_cooldown_handler \<Rightarrow> bool" where
  "program_wf A self h \<longleftrightarrow> balancer_wf self
     \<and> (\<forall>t \<in> set (concat (target_pools (rr_config self))). \<not> is_err (handler_get_target_status A h t))"

lemma config_wf_accepted:
  assumes "proxy_config_try_from raw = Ok cfg"
  shows "config_wf cfg"
proof -
  note ok = proxy_config_OkD [OF assms]
  have "port_to_pool cfg = map (\<lambda>p. (p, pool_index (apps raw) p)) (sort (configured_ports raw))"
    using table_inv_contents [OF ok(3)] ok(1) by (simp add: configured_ports_def)
  then have "\<forall>(p, idx) \<in> set (port_to_pool cfg). idx < length (target_pools cfg)"
    using ok(2) pool_index_nth(1) [of _ "apps raw"] by (auto simp: configured_ports_def)
  moreover have "sorted_wrt (<) (ports cfg)"
    using ok(3) by (simp add: table_inv_def btree_inv_def ports_def)
  ultimately show ?thesis by (simp add: config_wf_def)
qed

lemma config_wf_pool:
  assumes "config_wf cfg"
  shows "p \<in> set (ports cfg) \<longleftrightarrow> get_pool cfg p \<noteq> None"
    and "get_pool cfg p = Some pool \<Longrightarrow> set pool \<subseteq> set (concat (target_pools cfg))"
proof -
  show "p \<in> set (ports cfg) \<longleftrightarrow> get_pool cfg p \<noteq> None"
  proof (cases "map_of (port_to_pool cfg) p")
    case None
    then have "p \<notin> set (ports cfg)" by (simp add: ports_def map_of_eq_None_iff)
    with None show ?thesis by (simp add: get_pool_def)
  next
    case (Some idx)
    from map_of_SomeD [OF this] have "idx < length (target_pools cfg)" "p \<in> set (ports cfg)"
      using assms by (force simp: config_wf_def ports_def)+
    with Some show ?thesis by (simp add: get_pool_def)
  qed
  show "get_pool cfg p = Some pool \<Longrightarrow> set pool \<subseteq> set (concat (target_pools cfg))"
    by (auto simp: get_pool_def split: option.splits if_splits) (metis nth_mem)
qed

lemma balancer_wf_new: "config_wf cfg \<Longrightarrow> balancer_wf (rr_new cfg)"
  using rr_new_counter [of cfg]
  by (auto simp: balancer_wf_def rr_new_def dom_def split: if_splits)

lemma balancer_wf_call:
  assumes "balancer_wf self" "connect_backend D p self w = (res, self', w')"
  shows "balancer_wf self'" "rr_config self' = rr_config self"
  using assms connect_backend_self [OF assms(2)]
  by (auto simp: balancer_wf_def dom_def split: if_splits)

lemma balancer_wf_calls:
  assumes "balancer_wf self"
  shows "balancer_wf (fst (run_calls D ps self w))"
  using assms
proof (induction ps arbitrary: self w)
  case (Cons p ps)
  obtain res self' w' where call: "connect_backend D p self w = (res, self', w')" by (rule prod_cases3)
  with Cons.IH [OF balancer_wf_call(1) [OF Cons.prems call], of w'] show ?case
    by (simp split: prod.splits)
qed simp

lemma program_wf_new:
  assumes "arc_swap A" "proxy_config_try_from raw = Ok cfg" "target_state_try_from A raw = Ok ts"
  shows "program_wf A (rr_new cfg) (simple_cooldown_handler_new ts)"
  using arc_swap.initial_status [OF assms(1,3)] proxy_config_OkD(2) [OF assms(2)]
    balancer_wf_new [OF config_wf_accepted [OF assms(2)]]
  by (simp add: program_wf_def rr_new_def handler_get_target_status_def simple_cooldown_handler_new_def)

text \<open>One call from a well-formed state.\<close>

lemma program_wf_call:
  assumes "arc_swap A" "program_wf A self h"
    and "connect_backend (program_deps A E) p self (h, w) = (res, self', (h', w'))"
  shows "program_wf A self' h' \<and> rr_config self' = rr_config self
    \<and> (\<forall>e. res = Err e \<longrightarrow>
        (get_pool (rr_config self) p = None \<and> e = no_targets p)
      \<or> (get_pool (rr_config self) p = Some [] \<and> e = empty_backends p)
      \<or> e = unable_to_connect p
      \<or> (\<exists>pool t m. get_pool (rr_config self) p = Some pool \<and> t \<in> set pool \<and> e = BadAddressError t m))"
proof -
  let ?D = "program_deps A E" and ?cfg = "rr_config self"
  let ?P = "all_known A (concat (target_pools ?cfg))"
  have wf: "balancer_wf self" "?P (h, w)" using assms(2) by (simp_all add: program_wf_def all_known_def)
  then have cfg: "config_wf ?cfg" by (simp add: balancer_wf_def)
  note self' = balancer_wf_call [OF wf(1) assms(3)]
  have wf': "?P (h', w') \<Longrightarrow> program_wf A self' h'"
    using self' by (simp add: program_wf_def all_known_def)
  show ?thesis
  proof (cases "get_pool ?cfg p \<in> {None, Some []}")
    case True
    with assms(2,3) show ?thesis by (auto simp: connect_backend_def)
  next
    case False
    then obtain pool where pool: "get_pool ?cfg p = Some pool" "pool \<noteq> []" by auto
    then have "p \<in> dom (port_to_rr_counter self)"
      using wf(1) config_wf_pool(1) [OF cfg] by (simp add: balancer_wf_def)
    then obtain counter where counter: "port_to_rr_counter self p = Some counter" by blast
    let ?order = "visit_order self p"
    have order: "set ?order = set pool" using pool counter by (simp add: visit_order_def)
    note keep = arc_swap.program_deps_keep [OF assms(1), of E "concat (target_pools ?cfg)"]
    obtain r hw1 where scan: "scan_targets ?D ?order [] (h, w) = (r, hw1)" by (meson surj_pair)
    have status: "\<not> is_err (fst (get_target_status ?D t u))" if "t \<in> set ?order" "?P u" for t u
      using arc_swap.program_deps_status [OF assms(1) that(2)] that(1) order
        config_wf_pool(2) [OF cfg pool(1)] by blast
    note facts = scan_targets_errors [OF keep status wf(2) scan]
    note run = connect_backend_run [OF pool counter, of ?D "(h, w)"]
    show ?thesis
    proof (cases r)
      case (Return x)
      with run assms(3) scan have "res = x" "hw1 = (h', w')" by simp_all
      with Return facts wf' self'(2) order pool(1) program_bad_target show ?thesis by fastforce
    next
      case (Exhausted cooling)
      obtain x hw2 where cool: "try_cooling ?D p cooling hw1 = (x, hw2)" by (meson surj_pair)
      with run assms(3) scan Exhausted have "res = x" "hw2 = (h', w')" by simp_all
      moreover have "set cooling \<subseteq> set pool" using facts Exhausted order by simp
      moreover have "?P hw1" using facts by blast
      from try_cooling_errors [OF keep this cool]
      have "?P hw2 \<and> (\<forall>e. x = Err e \<longrightarrow> e = unable_to_connect p \<or> bad_target ?D cooling e)" .
      ultimately show ?thesis using wf' self'(2) pool(1) program_bad_target by blast
    qed
  qed
qed

text \<open>
  C9: in the program, where the balancer and the cooldown handler are built from one configuration,
  a connection for a port fails in four ways only: the port is not configured, its list of
  backends is empty, no backend could be reached, or the address of one of its backends is
  malformed. A missing backend status or counter is never the reason, whatever other connections
  have reported or report meanwhile.
\<close>

theorem program_connection_errors:
  assumes "arc_swap A" "proxy_config_try_from raw = Ok cfg" "target_state_try_from A raw = Ok ts"
    and "self = fst (run_calls D calls (rr_new cfg) v)"
    and "h = fold (\<lambda>(now, now', t, r) h. snd (handler_report_connection_attempt A now now' t r h))
               earlier (simple_cooldown_handler_new ts)"
    and "connect_backend (program_deps A E) p self (h, w) = (Err e, self', hw')"
  shows "(get_pool cfg p = None \<and> e = no_targets p) \<or> (get_pool cfg p = Some [] \<and> e = empty_backends p)
    \<or> e = unable_to_connect p
    \<or> (\<exists>pool t m. get_pool cfg p = Some pool \<and> t \<in> set pool \<and> e = BadAddressError t m)"
proof -
  have "balancer_wf self" "rr_config self = cfg"
    using balancer_wf_calls [OF balancer_wf_new [OF config_wf_accepted [OF assms(2)]]] assms(4)
    by (simp_all add: run_calls_config rr_new_def)
  then have "program_wf A self h"
    using program_wf_new [OF assms(1-3)] assms(5)
      cooldown_handler.run_reports_known [OF arc_swap.handler_contract [OF assms(1)]]
    by (simp add: program_wf_def rr_new_def)
  from program_wf_call [OF assms(1) this, of E p w "Err e" self' "fst hw'" "snd hw'"] assms(6)
    \<open>rr_config self = cfg\<close> show ?thesis by simp
qed

text \<open>
  C17: the program's state is well typed and stays so. Built from an accepted configuration, the
  routing table is sorted and its pool numbers are in range, there is a counter for each port and
  a status for each backend; every call keeps this, and in such a state the lookups of pool,
  counter and status that could fail do not.
\<close>

theorem program_stays_well_formed:
  assumes "arc_swap A"
  shows "(proxy_config_try_from raw = Ok cfg \<and> target_state_try_from A raw = Ok ts \<longrightarrow>
        program_wf A (rr_new cfg) (simple_cooldown_handler_new ts))
    \<and> (program_wf A self h \<and> connect_backend (program_deps A E) p self (h, w) = (res, self', (h', w')) \<longrightarrow>
        program_wf A self' h' \<and> res \<noteq> Err (no_counter p) \<and> (\<forall>t. res \<noteq> Err (BackendNotFound t))
        \<and> (p \<in> set (ports (rr_config self)) \<longrightarrow> res \<noteq> Err (no_targets p)))"
proof -
  have distinct: "e \<noteq> no_counter p \<and> e \<noteq> BackendNotFound t"
    if "e \<in> {no_targets p, empty_backends p, unable_to_connect p} \<or> (\<exists>t m. e = BadAddressError t m)" for e t
    using that by (auto simp: no_targets_def empty_backends_def unable_to_connect_def no_counter_def)
  have other: "empty_backends p \<noteq> no_targets p" "unable_to_connect p \<noteq> no_targets p"
    "\<And>t m. BadAddressError t m \<noteq> no_targets p"
    by (simp_all add: no_targets_def empty_backends_def unable_to_connect_def)
  have ports: "program_wf A self h \<Longrightarrow> p \<in> set (ports (rr_config self)) \<longleftrightarrow> get_pool (rr_config self) p \<noteq> None"
    by (rule config_wf_pool(1)) (simp add: program_wf_def balancer_wf_def)
  have "program_wf A self' h' \<and> res \<noteq> Err (no_counter p) \<and> (\<forall>t. res \<noteq> Err (BackendNotFound t))
      \<and> (p \<in> set (ports (rr_config self)) \<longrightarrow> res \<noteq> Err (no_targets p))"
    if wf: "program_wf A self h" and call: "connect_backend (program_deps A E) p self (h, w) = (res, self', (h', w'))"
  proof (cases res)
    case (Inl e)
    with program_wf_call [OF assms wf call]
    have e: "program_wf A self' h'" "(get_pool (rr_config self) p = None \<and> e = no_targets p)
        \<or> e = empty_backends p \<or> e = unable_to_connect p \<or> (\<exists>t m. e = BadAddressError t m)" by blast+
    then have "e \<noteq> no_counter p \<and> (\<forall>t. e \<noteq> BackendNotFound t)" using distinct [of e] by auto
    moreover have "e \<noteq> no_targets p" if "p \<in> set (ports (rr_config self))"
      using e(2) that ports [OF wf] other by metis
    ultimately show ?thesis using e(1) Inl by simp
  next
    case (Inr s)
    with program_wf_call [OF assms wf call] show ?thesis by simp
  qed
  with program_wf_new [OF assms] show ?thesis by blast
qed

text \<open>A world without a network: every lookup and every connection fails.\<close>

definition dark_env :: "(string, string, nat) env_ops" where
  "dark_env =
     \<lparr>env_lookup_ip = (\<lambda>host w. (Err ''down'', w + 1)), env_net_error = plain_net_error,
      env_tcp_connect = (\<lambda>a w. None), env_set_nodelay = (\<lambda>s b w. (Ok (), w)),
      env_timeout = (\<lambda>d f w. (None, w + 5)), env_now = (\<lambda>w. (w, w)), env_others = (\<lambda>w. ([], w))\<rparr>"

theorem program_connection_errors_witness:
  "\<exists>ts self' hw'. target_state_try_from plain_cell sample_raw = Ok ts
     \<and> connect_backend (program_deps plain_cell dark_env) 80 (rr_new sample_config)
         (simple_cooldown_handler_new ts, 0) = (Err (no_targets 80), self', hw')
     \<and> get_pool sample_config 80 = None"
proof -
  obtain ts where ts: "target_state_try_from plain_cell sample_raw = Ok ts"
    by (simp add: target_state_try_from_def)
  have pool: "get_pool sample_config 80 = None" by (simp add: get_pool_def sample_config_def)
  then have run: "connect_backend (program_deps plain_cell dark_env) 80 (rr_new sample_config)
      (simple_cooldown_handler_new ts, 0)
      = (Err (no_targets 80), rr_new sample_config, simple_cooldown_handler_new ts, 0)"
    by (simp add: connect_backend_def rr_new_def)
  from program_connection_errors [OF plain.arc_swap_axioms sample_config_ok ts, of "rr_new sample_config"
      demo_deps "[]" 0 "simple_cooldown_handler_new ts" "[]" dark_env 80 0, OF _ _ run]
  show ?thesis using ts pool run by auto
qed

theorem program_stays_well_formed_witness:
  "\<exists>ts res self' h' w'. target_state_try_from plain_cell sample_raw = Ok ts
    \<and> connect_backend (program_deps plain_cell dark_env) 5003 (rr_new sample_config)
        (simple_cooldown_handler_new ts, 0) = (res, self', (h', w'))
    \<and> program_wf plain_cell self' h' \<and> res \<noteq> Err (no_targets 5003)"
proof -
  obtain ts where ts: "target_state_try_from plain_cell sample_raw = Ok ts"
    by (simp add: target_state_try_from_def)
  let ?h = "simple_cooldown_handler_new ts"
  obtain res self' hw' where "connect_backend (program_deps plain_cell dark_env) 5003
      (rr_new sample_config) (?h, 0) = (res, self', hw')" by (rule prod_cases3)
  then obtain h' w' where run: "connect_backend (program_deps plain_cell dark_env) 5003
      (rr_new sample_config) (?h, 0) = (res, self', (h', w'))" by (cases hw') auto
  have "5003 \<in> set (ports (rr_config (rr_new sample_config)))"
    by (simp add: rr_new_def ports_def sample_config_def)
  with program_stays_well_formed [OF plain.arc_swap_axioms, of sample_raw sample_config ts
      "rr_new sample_config" ?h dark_env 5003 0 res self' h' w'] run ts sample_config_ok
  show ?thesis by blast
qed

end
