(* ===== verification/RR_Time.thy ===== *)
theory RR_Time
  imports RR_Properties
begin

text \<open>
  How long \<open>connect_backend\<close> of \<open>src/balancer/roundrobin.rs\<close> takes: its collaborators' clock may
  advance during a lookup and an attempt to connect, which \<open>timeout\<close> bounds; checks, reports and
  readings of the clock are memory accesses.
\<close>

section \<open>Collaborators with a clock\<close>

text \<open>
  \<open>clk\<close> reads the time off the world. A lookup takes at most \<open>lk\<close> and finds at most \<open>k\<close> addresses; an
  attempt bounded by \<open>d\<close> takes at most \<open>d\<close>; the clock that is read is that one.
\<close>

locale timely =
  fixes D :: "('w, 's) rr_deps" and clk :: "'w \<Rightarrow> instant" and lk :: duration and k :: nat
  assumes lookup_time: "lookup_host D t w = (h, w') \<Longrightarrow> clk w' \<le> clk w + lk"
    and lookup_count: "lookup_host D t w = (Ok addrs, w') \<Longrightarrow> length addrs \<le> k"
    and connect_time: "connect_within D d a w = (c, w') \<Longrightarrow> clk w' \<le> clk w + d"
    and status_time: "get_target_status D t w = (st, w') \<Longrightarrow> clk w' = clk w"
    and report_time: "report_connection_attempt D t r w = (u, w') \<Longrightarrow> clk w' = clk w"
    and now_time: "instant_now D w = (n, w') \<Longrightarrow> clk w' = clk w"
begin

text \<open>The longest an attempt at one target takes.\<close>

abbreviation attempt_bound :: duration where
  "attempt_bound \<equiv> lk + k * CONNECT_TIMEOUT"

lemma connect_addrs_time:
  assumes "connect_addrs D t xs w = (r, w')"
  shows "clk w' \<le> clk w + length xs * CONNECT_TIMEOUT"
  using assms
proof (induction xs arbitrary: w)
  case Nil
  then show ?case using report_time [of t Failure w] by (auto split: prod.splits)
next
  case (Cons a xs)
  obtain c w1 where c: "connect_within D CONNECT_TIMEOUT a w = (c, w1)" by fastforce
  note here = connect_time [OF c]
  show ?case
  proof (cases c rule: not_connected.cases)
    case (1 s)
    obtain u w2 where u: "report_connection_attempt D t Success w1 = (u, w2)" by fastforce
    with Cons.prems c 1 have "w' = w2" by simp
    with report_time [OF u] here show ?thesis by simp
  qed (use Cons.IH [of w1] Cons.prems c here in simp_all)
qed

lemma attempt_time:
  assumes "connect D t w = (r, w')"
  shows "clk w' \<le> clk w + attempt_bound"
proof -
  obtain h w1 where h: "lookup_host D t w = (h, w1)" by fastforce
  note here = lookup_time [OF h]
  show ?thesis
  proof (cases h)
    case (Inr xs)
    with assms h have "connect_addrs D t xs w1 = (r, w')" by (simp add: connect_def)
    from connect_addrs_time [OF this]
    have "clk w' \<le> clk w1 + length xs * CONNECT_TIMEOUT" .
    moreover have "length xs * CONNECT_TIMEOUT \<le> k * CONNECT_TIMEOUT"
      using lookup_count [of t w xs w1] h Inr by simp
    ultimately show ?thesis using here by linarith
  next
    case (Inl e)
    obtain u w2 where u: "report_connection_attempt D t Failure w1 = (u, w2)" by fastforce
    from assms h Inl u have "w' = w1 \<or> w' = w2"
      by (cases e) (auto simp: connect_def)
    with report_time [OF u] here show ?thesis by auto
  qed
qed

lemma try_cooling_time:
  assumes "try_cooling D p ts w = (res, w')"
  shows "clk w' \<le> clk w + length ts * attempt_bound"
  using assms
proof (induction ts arbitrary: w)
  case (Cons t ts)
  obtain c w1 where c: "connect D t w = (c, w1)" by fastforce
  from attempt_time [OF c] Cons.prems Cons.IH [of w1] c show ?case
    by (cases c) (simp_all add: algebra_simps)
qed simp

text \<open>A target that is put off costs nothing in the first loop; its turn in the second one is kept.\<close>

lemma scan_targets_time:
  assumes "scan_targets D ts cooling w = (res, w')"
  shows "case res of
      Return r \<Rightarrow> clk w' \<le> clk w + length ts * attempt_bound
    | Exhausted cs \<Rightarrow> clk w' + length cs * attempt_bound
        \<le> clk w + (length ts + length cooling) * attempt_bound"
  using assms
proof (induction ts arbitrary: cooling w)
  case (Cons t ts)
  obtain st w1 where st: "get_target_status D t w = (st, w1)" by fastforce
  note now1 = status_time [OF st]
  let ?goal = "case res of
      Return r \<Rightarrow> clk w' \<le> clk w + length (t # ts) * attempt_bound
    | Exhausted cs \<Rightarrow> clk w' + length cs * attempt_bound
        \<le> clk w + (length (t # ts) + length cooling) * attempt_bound"
  have skip: ?goal if "scan_targets D ts c v = (res, w')" "clk v = clk w" "length c \<le> Suc (length cooling)" for c v
  proof -
    have "length c * attempt_bound \<le> Suc (length cooling) * attempt_bound" using that(3) by (rule mult_le_mono1)
    with Cons.IH [OF that(1)] that(2) show ?thesis
      by (cases res) (auto simp: algebra_simps)
  qed
  have attempt: ?goal
    if v: "clk v = clk w" "connect D t v = (c, v')"
      and eq: "(case c of Ready s \<Rightarrow> (Return (Ok s), v') | TryNext \<Rightarrow> scan_targets D ts cooling v'
        | Fatal e \<Rightarrow> (Return (Err e), v')) = (res, w')" for v v' c
  proof -
    have "clk v' \<le> clk w + attempt_bound" using attempt_time [OF v(2)] v(1) by simp
    with eq Cons.IH [of cooling v'] show ?thesis
      by (cases c) (auto simp: algebra_simps split: scan_result.splits)
  qed
  show ?case
  proof (cases st)
    case (Inl e)
    with Cons.prems st now1 show ?thesis by auto
  next
    case (Inr s)
    show ?thesis
    proof (cases s)
      case Drain
      with skip [of cooling w1] Cons.prems st Inr now1 show ?thesis by simp
    next
      case (Alive cool)
      show ?thesis
      proof (cases cool)
        case None
        obtain c v' where "connect D t w1 = (c, v')" by fastforce
        with attempt [OF now1 this] Cons.prems st Inr Alive None show ?thesis by simp
      next
        case (Some until)
        obtain n w2 where n: "instant_now D w1 = (n, w2)" by fastforce
        have now2: "clk w2 = clk w" using now_time [OF n] now1 by simp
        obtain c v' where c: "connect D t w2 = (c, v')" by fastforce
        show ?thesis
        proof (cases "n < until")
          case True
          with skip [of "cooling @ [t]" w2] Cons.prems st Inr Alive Some n now2 show ?thesis by simp
        next
          case False
          with attempt [OF now2 c] Cons.prems st Inr Alive Some n c show ?thesis by simp
        qed
      qed
    qed
  qed
qed auto

lemma connect_backend_time:
  assumes "get_pool (rr_config self) p = Some backends" "connect_backend D p self w = (res, self', w')"
  shows "clk w' \<le> clk w + length backends * attempt_bound"
proof (cases rule: connect_backend_cases [of D p self])
  case (early e)
  with assms(2) show ?thesis by simp
next
  case (run pool counter)
  have len: "length (visit_order self p) = length backends" using assms(1) run by (simp add: visit_order_def)
  obtain r w1 where scan: "scan_targets D (visit_order self p) [] w = (r, w1)" by fastforce
  show ?thesis
  proof (cases r)
    case (Return x)
    with assms(2) scan have "w' = w1" by (simp add: connect_backend_run [OF run])
    with scan_targets_time [OF scan] Return len show ?thesis by simp
  next
    case (Exhausted cs)
    obtain x w2 where cool: "try_cooling D p cs w1 = (x, w2)" by fastforce
    with assms(2) scan Exhausted have "w' = w2" by (simp add: connect_backend_run [OF run])
    with scan_targets_time [OF scan] try_cooling_time [OF cool] Exhausted len show ?thesis by simp
  qed
qed

end

section \<open>The bound\<close>

text \<open>
  C16: a call to \<open>connect_backend\<close> is over in time: with lookups that take at most \<open>lk\<close> and find at
  most \<open>k\<close> addresses, a port with \<open>n\<close> backends gets its stream or its error within \<open>n\<close> times a
  lookup and \<open>k\<close> times five seconds. No backend is tried twice, though it may be put off.
\<close>

theorem call_time_bounded:
  assumes "timely D clk lk k" "get_pool (rr_config self) port = Some backends"
    and "connect_backend D port self w = (res, self', w')"
  shows "clk w' \<le> clk w + length backends * (lk + k * from_secs 5)"
  using timely.connect_backend_time [OF assms] by (simp add: CONNECT_TIMEOUT_def)

text \<open>Three backends that resolve to two addresses each, where nobody answers.\<close>

definition slow_deps :: "(instant, string) rr_deps" where
  "slow_deps =
     \<lparr>lookup_host = (\<lambda>t w. (Ok [SocketAddr (V4 10 0 0 1) 1 0, SocketAddr (V4 10 0 0 2) 1 0], w + from_secs 1)),
      connect_within = (\<lambda>d a w. (None, w + d)),
      get_target_status = (\<lambda>t w. (Ok (Alive (if t = ''b0'' then Some (from_secs 60) else None)), w)),
      report_connection_attempt = (\<lambda>t r w. (Ok (), w)),
      instant_now = (\<lambda>w. (w, w))\<rparr>"

interpretation slow: timely slow_deps "\<lambda>w. w" "from_secs 1" 2
  by unfold_locales (auto simp: slow_deps_def)

theorem call_time_bounded_witness:
  "\<exists>self'. connect_backend slow_deps 80 (rr_new demo_config) 0
      = (Err (unable_to_connect 80), self', from_secs 33)
    \<and> from_secs 33 \<le> 0 + length [''b0'', ''b1'', ''b2''] * (from_secs 1 + 2 * from_secs 5)"
proof -
  have "\<exists>self'. connect_backend slow_deps 80 (rr_new demo_config) 0
      = (Err (unable_to_connect 80), self', from_secs 33)"
    by (simp add: connect_backend_def rr_new_def demo_config_def get_pool_def ports_def rr_order_def
        slow_deps_def connect_def upt_rec from_secs_def CONNECT_TIMEOUT_def)
  then obtain self' where run: "connect_backend slow_deps 80 (rr_new demo_config) 0
      = (Err (unable_to_connect 80), self', from_secs 33)" by blast
  from call_time_bounded [OF slow.timely_axioms demo_balancer(1) run] run show ?thesis by auto
qed

end
