(* ===== verification/Program_Properties.thy ===== *)
theory Program_Properties
  imports Program_Balancer RR_Time
begin

text \<open>
  The balancer and the cooldown handler of \<open>src/main.rs\<close> at work together: how long a call takes, and
  what a call that fails leaves behind for the next one.
\<close>

section \<open>Time\<close>

text \<open>
  What the program relies on: a DNS lookup takes at most \<open>lk\<close> and finds at most \<open>k\<close> addresses, \<open>timeout\<close>
  returns in time, and \<open>Instant::now\<close> and the work of the other connections do not move the clock.
\<close>

locale timely_env = arc_swap A for A :: "'c arc_swap_ops" +
  fixes E :: "('n, 's, 'w) env_ops" and clk :: "'w \<Rightarrow> instant" and lk :: duration and k :: nat
  assumes lookup_ip_time: "env_lookup_ip E host w = (r, w') \<Longrightarrow> clk w' \<le> clk w + lk"
    and lookup_ip_count: "env_lookup_ip E host w = (Ok ips, w') \<Longrightarrow> length ips \<le> k"
    and some_address: "1 \<le> k"
    and timeout_time: "env_timeout E d f w = (c, w') \<Longrightarrow> clk w' \<le> clk w + d"
    and env_now_time: "env_now E w = (n, w') \<Longrightarrow> clk w' = clk w"
    and others_time: "env_others E w = (rs, w') \<Longrightarrow> clk w' = clk w"
begin

lemma meanwhile_time: "meanwhile A E hw = (h, w') \<Longrightarrow> clk w' = clk (snd hw)"
  using others_time [of "snd hw"] by (auto simp: meanwhile_def split: prod.splits)

lemma on_world_time:
  assumes "on_world A E f hw = (r, hw')"
  obtains w w' where "f w = (r, w')" "snd hw' = w'" "clk w = clk (snd hw)"
  using assms meanwhile_time [of hw]
  by (auto simp: on_world_def split: prod.splits)

lemma hickory_time:
  assumes "hickory_lookup_host N (env_lookup_ip E) t w = (r, w')"
  shows "clk w' \<le> clk w + lk" "r = Ok addrs \<Longrightarrow> length addrs \<le> k"
  using assms lookup_ip_time lookup_ip_count some_address
  by (auto simp: hickory_lookup_host_def split: option.splits prod.splits sum.splits)

lemma program_report_time:
  assumes "program_report A E t r hw = (u, hw')"
  shows "clk (snd hw') = clk (snd hw)"
proof -
  obtain h w where m: "meanwhile A E hw = (h, w)" by fastforce
  show ?thesis
    using assms m meanwhile_time [OF m] env_now_time
    by (auto simp: program_report_def Let_def split: prod.splits sum.splits backend_status.splits if_splits)
qed

end

sublocale timely_env \<subseteq> program: timely "program_deps A E" "\<lambda>hw. clk (snd hw)" lk k
proof (unfold_locales, goal_cases)
  case (1 t w h w')
  then show ?case
    by (auto simp: program_deps_def elim!: on_world_time dest: hickory_time(1))
next
  case (2 t w addrs w')
  then show ?case
    by (auto simp: program_deps_def elim!: on_world_time dest: hickory_time(2))
next
  case (3 d a w c w')
  then show ?case
    by (auto simp: program_deps_def elim!: on_world_time dest: timeout_time)
next
  case (4 t w st w')
  obtain h v where m: "meanwhile A E w = (h, v)" by fastforce
  with 4 have "w' = (h, v)" by (simp add: program_deps_def)
  with meanwhile_time [OF m] show ?case by simp
next
  case (5 t r w u w')
  then show ?case by (auto simp: program_deps_def dest: program_report_time)
next
  case (6 w n w')
  then show ?case by (auto simp: program_deps_def elim!: on_world_time dest: env_now_time)
qed

text \<open>A world where every lookup takes a second and nobody answers: the world is the time.\<close>

definition slow_env :: "(string, string, instant) env_ops" where
  "slow_env =
     \<lparr>env_lookup_ip = (\<lambda>host w. (Ok [V4 10 0 0 1], w + from_secs 1)), env_net_error = plain_net_error,
      env_tcp_connect = (\<lambda>a w. None), env_set_nodelay = (\<lambda>s b w. (Ok (), w)),
      env_timeout = (\<lambda>d f w. (None, w + d)), env_now = (\<lambda>w. (w, w)), env_others = (\<lambda>w. ([], w))\<rparr>"

interpretation slow_program: timely_env plain_cell slow_env "\<lambda>w. w" "from_secs 1" 1
  by unfold_locales (auto simp: slow_env_def)

section \<open>A call that fails\<close>

text \<open>The backend is drained, or cooling for two minutes from \<open>t0\<close> at least.\<close>

definition out_of_use :: "'c arc_swap_ops \<Rightarrow> instant \<Rightarrow> 'c simple_cooldown_handler \<Rightarrow> string \<Rightarrow> bool" where
  "out_of_use A t0 h t \<longleftrightarrow> handler_get_target_status A h t = Ok Drain
     \<or> (\<exists>until. handler_get_target_status A h t = Ok (Alive (Some until)) \<and> t0 + COOLDOWN \<le> until)"

definition only_worse ::
  "'c arc_swap_ops \<Rightarrow> instant \<Rightarrow> string set \<Rightarrow> 'c simple_cooldown_handler \<Rightarrow> 'c simple_cooldown_handler \<Rightarrow> bool" where
  "only_worse A t0 ts h h' \<longleftrightarrow> (\<forall>t. out_of_use A t0 h t \<longrightarrow> out_of_use A t0 h' t)
     \<and> (\<forall>t. t \<notin> ts \<longrightarrow> handler_get_target_status A h' t = handler_get_target_status A h t) \<and> (\<forall>t. is_err (handler_get_target_status A h' t) = is_err (handler_get_target_status A h t))"

text \<open>
  Nobody else reports meanwhile, and the clock does not go back.
\<close>

locale calm_env = arc_swap A for A :: "'c arc_swap_ops" +
  fixes E :: "('n, 's, 'w) env_ops" and clk :: "'w \<Rightarrow> instant"
  assumes others_none: "env_others E w = ([], w)"
    and now_reads: "env_now E w = (n, w') \<Longrightarrow> clk w \<le> n \<and> clk w \<le> clk w'"
    and lookup_mono: "env_lookup_ip E host w = (r, w') \<Longrightarrow> clk w \<le> clk w'"
    and timeout_mono: "env_timeout E d f w = (c, w') \<Longrightarrow> clk w \<le> clk w'"
begin

abbreviation "status h t \<equiv> handler_get_target_status A h t"

lemma only_worse_refl: "only_worse A t0 ts h h"
  by (simp add: only_worse_def)

lemma only_worse_trans:
  assumes "only_worse A t0 ts h h1" "only_worse A t0 us h1 h2" "ts \<subseteq> vs" "us \<subseteq> vs"
  shows "only_worse A t0 vs h h2"
proof -
  have "status h2 t = status h t" if "t \<notin> vs" for t
    using assms that unfolding only_worse_def by (metis subsetD)
  with assms(1,2) show ?thesis unfolding only_worse_def by simp
qed

lemma meanwhile_none [simp]: "meanwhile A E hw = hw"
  by (simp add: meanwhile_def others_none split: prod.split)

lemma hickory_mono:
  "hickory_lookup_host N (env_lookup_ip E) t w = (r, w') \<Longrightarrow> clk w \<le> clk w'"
  using lookup_mono by (auto simp: hickory_lookup_host_def split: option.splits prod.splits sum.splits)

lemma report_failure:
  assumes "report_connection_attempt (program_deps A E) t Failure (h, w) = (u, (h', w'))"
    and "t0 \<le> clk w" "\<not> is_err (status h t)"
  shows "out_of_use A t0 h' t \<and> only_worse A t0 {t} h h' \<and> t0 \<le> clk w'"
proof -
  from assms(3) obtain s where s: "status h t = Ok s" by (auto simp: is_err_iff) (metis sum.exhaust)
  from assms(1) have report: "program_report A E t Failure (h, w) = (u, (h', w'))"
    by (simp add: program_deps_def)
  show ?thesis
  proof (cases s)
    case Drain
    with s report have "h' = h" "w' = w"
      by (auto simp: program_report_def handler_report_connection_attempt_def split: prod.splits)
    with s Drain assms(2) show ?thesis by (simp add: out_of_use_def only_worse_refl)
  next
    case (Alive cool)
    obtain n1 w1 where n1: "env_now E w = (n1, w1)" by fastforce
    obtain n2 w2 where n2: "env_now E w1 = (n2, w2)" by fastforce
    from s Alive report n1 n2 have h': "w' = w2" "h' = snd (handler_report_connection_attempt A n1 n2 t Failure h)"
      by (auto simp: program_report_def split: prod.splits)
    note st = report_status_eq [of n1 n2 t Failure h]
    have t: "status h' t = Ok (Alive (Some (n2 + COOLDOWN)))" using st [of t] h' s Alive by simp
    have others: "t' \<noteq> t \<Longrightarrow> status h' t' = status h t'" for t' using st [of t'] h' by simp
    have "t0 \<le> n2" "t0 \<le> clk w2" using now_reads [OF n1] now_reads [OF n2] assms(2) by linarith+
    then have out: "out_of_use A t0 h' t" using t by (simp add: out_of_use_def)
    have "only_worse A t0 {t} h h'"
      unfolding only_worse_def
    proof (intro conjI allI impI)
      fix t' assume "out_of_use A t0 h t'"
      then show "out_of_use A t0 h' t'" using out others [of t'] by (cases "t' = t") (simp_all add: out_of_use_def)
    next
      fix t' assume "t' \<notin> {t}"
      then show "status h' t' = status h t'" using others by simp
    next
      fix t' show "is_err (status h' t') = is_err (status h t')"
        using others [of t'] t s by (cases "t' = t") simp_all
    qed
    with out \<open>t0 \<le> clk w2\<close> h'(1) show ?thesis by simp
  qed
qed

lemma connect_addrs_calm:
  assumes "connect_addrs (program_deps A E) t xs (h, w) = (r, (h', w'))"
    and "t0 \<le> clk w" "\<not> is_err (status h t)"
  shows "\<exists>v. (r = TryNext \<longrightarrow> (\<exists>u. report_connection_attempt (program_deps A E) t Failure (h, v) = (u, (h', w'))))
    \<and> t0 \<le> clk v \<and> (\<forall>e. r \<noteq> Fatal e)"
  using assms
proof (induction xs arbitrary: w)
  case Nil
  then show ?case by (intro exI [of _ w]) (auto split: prod.splits)
next
  case (Cons a xs)
  obtain c v where c: "env_timeout E CONNECT_TIMEOUT (tokio_connect (env_tcp_connect E) (env_set_nodelay E) a) w = (c, v)"
    by fastforce
  then have step: "connect_within (program_deps A E) CONNECT_TIMEOUT a (h, w) = (c, (h, v))"
    by (simp add: program_deps_def on_world_def)
  have v: "t0 \<le> clk v" using timeout_mono [OF c] Cons.prems(2) by simp
  show ?case
  proof (cases c rule: not_connected.cases)
    case (1 s)
    with Cons.prems(1) step v show ?thesis by (intro exI [of _ v]) (auto split: prod.splits)
  qed (use Cons.IH [OF _ v Cons.prems(3)] Cons.prems(1) step in simp_all)
qed

lemma connect_calm:
  assumes "connect (program_deps A E) t (h, w) = (r, (h', w'))"
    and "t0 \<le> clk w" "\<not> is_err (status h t)"
  shows "(r = TryNext \<longrightarrow> out_of_use A t0 h' t \<and> only_worse A t0 {t} h h' \<and> t0 \<le> clk w')
    \<and> (\<forall>e. r = Fatal e \<longrightarrow> (\<exists>m. e = BadAddressError t m))"
proof -
  let ?D = "program_deps A E"
  obtain l v where l: "hickory_lookup_host (env_net_error E) (env_lookup_ip E) t w = (l, v)" by fastforce
  then have step: "lookup_host ?D t (h, w) = (l, (h, v))" by (simp add: program_deps_def on_world_def)
  have v: "t0 \<le> clk v" using hickory_mono [OF l] assms(2) by simp
  show ?thesis
  proof (cases l)
    case (Inr xs)
    with assms(1) step have "connect_addrs ?D t xs (h, v) = (r, (h', w'))" by (simp add: connect_def)
    from connect_addrs_calm [OF this v assms(3)] report_failure [OF _ _ assms(3)] show ?thesis by blast
  next
    case (Inl e)
    show ?thesis
    proof (cases "is_dns_error e")
      case True
      with assms(1) step Inl obtain u where "r = TryNext"
        "report_connection_attempt ?D t Failure (h, v) = (u, (h', w'))"
        by (cases e) (auto simp: connect_def split: prod.splits)
      with report_failure [OF _ v assms(3)] show ?thesis by simp
    next
      case False
      with assms(1) step Inl have "r = Fatal e" by (cases e) (auto simp: connect_def)
      moreover have "\<exists>m. e = BadAddressError t m"
        using hickory_lookup_host_not_dns [of "env_net_error E" "env_lookup_ip E" t w e] l Inl False by simp
      ultimately show ?thesis by simp
    qed
  qed
qed

lemma try_cooling_calm:
  assumes "try_cooling (program_deps A E) p ts (h, w) = (Err (unable_to_connect p), (h', w'))"
    and "t0 \<le> clk w" "\<forall>t \<in> set ts. \<not> is_err (status h t)"
  shows "(\<forall>t \<in> set ts. out_of_use A t0 h' t) \<and> only_worse A t0 (set ts) h h'"
  using assms
proof (induction ts arbitrary: h w)
  case Nil
  then show ?case by (simp add: only_worse_refl)
next
  case (Cons t ts)
  obtain c h1 w1 where c: "connect (program_deps A E) t (h, w) = (c, (h1, w1))" by (metis prod.exhaust)
  have "\<not> is_err (status h t)" using Cons.prems(3) by simp
  note step = connect_calm [OF c Cons.prems(2) this]
  show ?case
  proof (cases c)
    case (Ready s)
    with c Cons.prems(1) show ?thesis by simp
  next
    case TryNext
    with step have s: "out_of_use A t0 h1 t" "only_worse A t0 {t} h h1" "t0 \<le> clk w1" by simp_all
    have known: "\<forall>t' \<in> set ts. \<not> is_err (status h1 t')"
      using Cons.prems(3) s(2) by (simp add: only_worse_def)
    from c TryNext Cons.prems(1)
    have "try_cooling (program_deps A E) p ts (h1, w1) = (Err (unable_to_connect p), (h', w'))" by simp
    note rest = Cons.IH [OF this s(3) known]
    have "out_of_use A t0 h' t" using rest s(1) by (simp add: only_worse_def)
    with rest only_worse_trans [OF s(2), of "set ts" h' "set (t # ts)"] show ?thesis by auto
  next
    case (Fatal e)
    with step c Cons.prems(1) show ?thesis by (auto simp: unable_to_connect_def)
  qed
qed

text \<open>The first loop: what it has tried is out of use, and what it has put off is in its list.\<close>

lemma scan_targets_calm:
  assumes "scan_targets (program_deps A E) ts cooling (h, w) = (res, (h', w'))"
    and "t0 \<le> clk w" "\<forall>t \<in> set ts. \<not> is_err (status h t)"
  shows "res \<noteq> Return (Err (unable_to_connect p))
    \<and> (\<forall>cs. res = Exhausted cs \<longrightarrow> t0 \<le> clk w' \<and> only_worse A t0 (set ts) h h'
        \<and> (\<forall>t \<in> set ts. out_of_use A t0 h' t \<or> t \<in> set cs)
        \<and> set cooling \<subseteq> set cs \<and> set cs \<subseteq> set cooling \<union> set ts)"
  using assms
proof (induction ts arbitrary: cooling h w)
  case Nil
  then show ?case by (auto simp: only_worse_refl)
next
  case (Cons t ts)
  let ?D = "program_deps A E"
  from Cons.prems(3) obtain s where s: "status h t = Ok s" by (cases "status h t") auto
  have st: "get_target_status ?D t (h, w) = (Ok s, (h, w))" using s by (simp add: program_deps_def)
  have known: "\<forall>t' \<in> set ts. \<not> is_err (status h t')" using Cons.prems(3) by simp
  have skip: ?case
    if "scan_targets ?D ts c (h, v) = (res, (h', w'))" "t0 \<le> clk v"
      "out_of_use A t0 h t \<and> c = cooling \<or> c = cooling @ [t]" for c v
  proof -
    note IH = Cons.IH [OF that(1,2) known]
    have "only_worse A t0 (set (t # ts)) h h'" if "only_worse A t0 (set ts) h h'"
      by (rule only_worse_trans [OF only_worse_refl that]) auto
    with IH that(3) show ?thesis by (auto simp: only_worse_def)
  qed
  have attempt: ?case
    if v: "t0 \<le> clk v"
      and eq: "(case connect ?D t (h, v) of (Ready s, w3) \<Rightarrow> (Return (Ok s), w3)
        | (TryNext, w3) \<Rightarrow> scan_targets ?D ts cooling w3 | (Fatal e, w3) \<Rightarrow> (Return (Err e), w3)) = (res, (h', w'))"
    for v
  proof -
    obtain c h1 w1 where c: "connect ?D t (h, v) = (c, (h1, w1))" by (metis prod.exhaust)
    have "\<not> is_err (status h t)" using s by simp
    note step = connect_calm [OF c v this]
    show ?thesis
    proof (cases c)
      case (Ready x)
      with c eq show ?thesis by auto
    next
      case TryNext
      with step have w: "out_of_use A t0 h1 t" "only_worse A t0 {t} h h1" "t0 \<le> clk w1" by simp_all
      have k1: "\<forall>t' \<in> set ts. \<not> is_err (status h1 t')" using known w(2) by (simp add: only_worse_def)
      from c TryNext eq have "scan_targets ?D ts cooling (h1, w1) = (res, (h', w'))" by simp
      note IH = Cons.IH [OF this w(3) k1]
      have "only_worse A t0 (set (t # ts)) h h'" if "only_worse A t0 (set ts) h1 h'"
        by (rule only_worse_trans [OF w(2) that]) auto
      moreover have "out_of_use A t0 h' t" if "only_worse A t0 (set ts) h1 h'"
        using that w(1) by (simp add: only_worse_def)
      ultimately show ?thesis using IH by auto
    next
      case (Fatal e)
      with step c eq show ?thesis by (auto simp: unable_to_connect_def)
    qed
  qed
  show ?case
  proof (cases s)
    case Drain
    with s have "out_of_use A t0 h t" by (simp add: out_of_use_def)
    with skip [of cooling w] Cons.prems(1,2) st Drain show ?thesis by simp
  next
    case (Alive cool)
    show ?thesis
    proof (cases cool)
      case None
      with attempt [OF Cons.prems(2)] Cons.prems(1) st Alive show ?thesis by simp
    next
      case (Some until)
      obtain n v where n: "env_now E w = (n, v)" by fastforce
      then have now: "instant_now ?D (h, w) = (n, (h, v))" by (simp add: program_deps_def on_world_def)
      have v: "t0 \<le> clk v" using now_reads [OF n] Cons.prems(2) by linarith
      show ?thesis
      proof (cases "n < until")
        case True
        with skip [of "cooling @ [t]" v] v Cons.prems(1) st Alive Some now show ?thesis by simp
      next
        case False
        with attempt [OF v] Cons.prems(1) st Alive Some now show ?thesis by simp
      qed
    qed
  qed
qed

lemma failed_call_calm:
  assumes "program_wf A self h" "get_pool (rr_config self) p = Some pool"
    and "connect_backend (program_deps A E) p self (h, w) = (Err (unable_to_connect p), self', (h', w'))"
  shows "(\<forall>t \<in> set pool. out_of_use A (clk w) h' t) \<and> only_worse A (clk w) (set pool) h h'"
proof (cases rule: connect_backend_cases [of "program_deps A E" p self])
  case (early e)
  with assms(3) show ?thesis
    by (auto simp: unable_to_connect_def no_targets_def empty_backends_def no_counter_def)
next
  case (run backends counter)
  let ?D = "program_deps A E" and ?order = "visit_order self p"
  have order: "set ?order = set pool" using run assms(2) by (simp add: visit_order_def)
  have "config_wf (rr_config self)" using assms(1) by (simp add: program_wf_def balancer_wf_def)
  from config_wf_pool(2) [OF this assms(2)] assms(1)
  have known: "\<forall>t \<in> set ?order. \<not> is_err (status h t)" unfolding order program_wf_def by blast
  obtain r h1 w1 where scan: "scan_targets ?D ?order [] (h, w) = (r, (h1, w1))" by (metis prod.exhaust)
  note facts = scan_targets_calm [OF scan order_refl known, of p]
  show ?thesis
  proof (cases r)
    case (Return x)
    with assms(3) scan facts show ?thesis by (simp add: connect_backend_run [OF run])
  next
    case (Exhausted cs)
    obtain x h2 w2 where cool: "try_cooling ?D p cs (h1, w1) = (x, (h2, w2))" by (metis prod.exhaust)
    with assms(3) scan Exhausted have eq: "x = Err (unable_to_connect p)" "h2 = h'" "w2 = w'"
      by (simp_all add: connect_backend_run [OF run])
    have cs: "set cs \<subseteq> set pool" "only_worse A (clk w) (set pool) h h1"
      "\<forall>t \<in> set pool. out_of_use A (clk w) h1 t \<or> t \<in> set cs" "clk w \<le> clk w1"
      using facts Exhausted order by auto
    have "\<forall>t \<in> set cs. \<not> is_err (status h1 t)" using cs(1,2) known order by (auto simp: only_worse_def)
    from try_cooling_calm [OF cool [unfolded eq] cs(4) this]
    have rest: "\<forall>t \<in> set cs. out_of_use A (clk w) h' t" "only_worse A (clk w) (set cs) h1 h'" by simp_all
    have "only_worse A (clk w) (set pool) h h'"
      using only_worse_trans [OF cs(2) rest(2) subset_refl cs(1)] .
    moreover have "\<forall>t \<in> set pool. out_of_use A (clk w) h' t"
      using cs(3) rest unfolding only_worse_def by blast
    ultimately show ?thesis by blast
  qed
qed

end

text \<open>
  C8: failing over carries on from call to call. When a call finds no backend, and nobody else
  interferes, every backend of the port is drained or cooling for the two minutes from the start of
  the call, so none of them is taken for up before that time is over; the backends of other ports
  are untouched.
\<close>

theorem failed_call_cools_pool:
  assumes "calm_env A E clk" "program_wf A self h" "get_pool (rr_config self) p = Some pool"
    and "connect_backend (program_deps A E) p self (h, w) = (Err (unable_to_connect p), self', (h', w'))"
  shows "(\<forall>t \<in> set pool. \<exists>s. handler_get_target_status A h' t = Ok s
        \<and> (\<forall>later < clk w + from_secs 120. health_at later s \<noteq> Up))
    \<and> (\<forall>t. t \<notin> set pool \<longrightarrow> handler_get_target_status A h' t = handler_get_target_status A h t)"
proof -
  from calm_env.failed_call_calm [OF assms]
  have out: "\<forall>t \<in> set pool. out_of_use A (clk w) h' t" and worse: "only_worse A (clk w) (set pool) h h'"
    by simp_all
  have "\<exists>s. handler_get_target_status A h' t = Ok s
      \<and> (\<forall>later < clk w + from_secs 120. health_at later s \<noteq> Up)" if "t \<in> set pool" for t
    using out that by (auto simp: out_of_use_def COOLDOWN_def)
  with worse show ?thesis by (auto simp: only_worse_def)
qed

interpretation slow_calm: calm_env plain_cell slow_env "\<lambda>w. w"
  by unfold_locales (auto simp: slow_env_def)

lemma slow_lookup:
  "hickory_lookup_host (env_net_error slow_env) (env_lookup_ip slow_env) ''b2:2'' w
     = (Ok [SocketAddr (V4 10 0 0 1) 2 0], w + from_secs 1)"
proof -
  have "to_digit_radix 10 CHR ''b'' = None" by (simp add: to_digit_radix_def)
  then have "parse_socket_addr ''b2:2'' = None" by (rule parse_socket_addr_letter) simp
  moreover have "split_once CHR '':'' ''b2:2'' = Some (''b2'', ''2'')"
    using split_once_Some [of "CHR '':''" "''b2:2''" "''b2''" "''2''"] by simp
  moreover have "parse_u16 ''2'' = Some 2" by (simp add: parse_u16_def to_digit_def)
  ultimately show ?thesis by (simp add: hickory_lookup_host_def slow_env_def socket_addr_new_def)
qed

lemma slow_env_timeout: "env_timeout slow_env d f w = (None, w + d)"
  by (simp add: slow_env_def)

theorem failed_call_cools_pool_witness:
  "\<exists>ts self' h' s. target_state_try_from plain_cell sample_raw = Ok ts
    \<and> connect_backend (program_deps plain_cell slow_env) 5003 (rr_new sample_config)
        (simple_cooldown_handler_new ts, 0) = (Err (unable_to_connect 5003), self', (h', from_secs 6))
    \<and> handler_get_target_status plain_cell h' ''b2:2'' = Ok s \<and> health_at (from_secs 119) s \<noteq> Up"
proof -
  obtain ts where ts: "target_state_try_from plain_cell sample_raw = Ok ts"
    by (simp add: target_state_try_from_def)
  let ?h = "simple_cooldown_handler_new ts"
  have pool: "get_pool (rr_config (rr_new sample_config)) 5003 = Some [''b2:2'']"
    by (simp add: rr_new_def get_pool_def sample_config_def)
  then have st: "handler_get_target_status plain_cell ?h ''b2:2'' = Ok (Alive None)"
    using pool_target_status [OF plain.arc_swap_axioms sample_config_ok ts, of 5003 "[''b2:2'']" "''b2:2''"]
    by (simp add: simple_cooldown_handler_new_def rr_new_def)
  let ?D = "program_deps plain_cell slow_env" and ?t = "''b2:2''"
  obtain u h' w' where report: "program_report plain_cell slow_env ?t Failure (?h, from_secs 6) = (u, (h', w'))"
    by (metis prod.exhaust)
  then have w': "w' = from_secs 6"
    using slow_program.program_report_time [OF report] by simp
  have "connect ?D ?t (?h, 0) = (TryNext, (h', from_secs 6))"
    using report w' slow_lookup [of 0]
    by (simp add: connect_def program_deps_def on_world_def slow_env_timeout CONNECT_TIMEOUT_def
        from_secs_def)
  with st have "scan_targets ?D [?t] [] (?h, 0) = (Exhausted [], (h', from_secs 6))"
    by (simp add: program_deps_def)
  moreover have "port_to_rr_counter (rr_new sample_config) 5003 = Some 0"
    by (simp add: rr_new_counter sample_config_def ports_def)
  moreover from this pool have "visit_order (rr_new sample_config) 5003 = [?t]" by (simp add: visit_order_def)
  ultimately have "\<exists>self' h'. connect_backend ?D 5003 (rr_new sample_config) (?h, 0)
      = (Err (unable_to_connect 5003), self', (h', from_secs 6))"
    using connect_backend_run [OF pool, of 0 ?D "(?h, 0)"] by simp
  then obtain self' h' where run: "connect_backend (program_deps plain_cell slow_env) 5003
      (rr_new sample_config) (?h, 0) = (Err (unable_to_connect 5003), self', (h', from_secs 6))" by blast
  note wf = program_wf_new [OF plain.arc_swap_axioms sample_config_ok ts]
  from failed_call_cools_pool [OF slow_calm.calm_env_axioms wf pool run]
  obtain s where "handler_get_target_status plain_cell h' ''b2:2'' = Ok s"
    "\<forall>later < 0 + from_secs 120. health_at later s \<noteq> Up" by auto
  moreover have "from_secs 119 < 0 + from_secs 120" by (simp add: from_secs_def)
  ultimately show ?thesis using ts run by blast
qed

end
