(* ===== verification/RR_Harness.thy ===== *)
theory RR_Harness
  imports Round_Robin
begin

text \<open>
  \<open>src/balancer/roundrobinharness.rs\<close> and the unit tests of \<open>src/balancer/roundrobin.rs\<close>: the
  scripted fakes of the balancer's collaborators, the harness that builds them, and every test as a
  computation on the model, so that the model is checked against what the authors expect of the
  code. A panic of the test code ends a test: a fake that panics marks the world, and a harness
  call gives no result then.
\<close>

section \<open>Scripts and events\<close>














section \<open>The fakes\<close>











section \<open>The harness\<close>













section \<open>The unit tests\<close>





































end
