(* ===== verification/Proxy_Refinement.thy ===== *)
theory Proxy_Refinement
  imports Proxy_Shutdown
begin

text \<open>
  What the server of \<open>src/proxy.rs\<close> promises about its connections, as a turnstile without semaphores,
  listeners, tokens or clocks: who is inside, who has a place in the queue, and the line for going
  inside. Every step of the server is a move of the turnstile or invisible to it.
\<close>

section \<open>The turnstile\<close>

record turnstile =
  inside :: "nat set"
  in_queue :: "nat set"
  line :: "nat list"
  arrivals :: nat

definition turnstile_start :: turnstile where
  "turnstile_start = \<lparr>inside = {}, in_queue = {}, line = [], arrivals = 0\<rparr>"

text \<open>
  A new connection enters, with room inside and nobody in line, or takes a place in the queue. One
  in the queue joins the line when there is no room, and is called in when there is; the one who
  goes out lets the first of the line in; one in line may give up; one that is not in line may give
  up its place in the queue.
\<close>

inductive turn :: "nat \<Rightarrow> nat \<Rightarrow> turnstile \<Rightarrow> turnstile \<Rightarrow> bool"
  for m :: nat and q :: nat and a :: turnstile where
  enter: "card (inside a) < m \<Longrightarrow> line a = [] \<Longrightarrow>
    turn m q a (a\<lparr>inside := insert (arrivals a) (inside a), arrivals := Suc (arrivals a)\<rparr>)"
| queue_up: "card (in_queue a) < q \<Longrightarrow>
    turn m q a (a\<lparr>in_queue := insert (arrivals a) (in_queue a), arrivals := Suc (arrivals a)\<rparr>)"
| join_line: "i \<in> in_queue a \<Longrightarrow> i \<notin> inside a \<Longrightarrow> i \<notin> set (line a) \<Longrightarrow> card (inside a) = m \<Longrightarrow>
    turn m q a (a\<lparr>line := line a @ [i]\<rparr>)"
| call_in: "i \<in> in_queue a \<Longrightarrow> i \<notin> inside a \<Longrightarrow> card (inside a) < m \<Longrightarrow> line a = [] \<Longrightarrow>
    turn m q a (a\<lparr>inside := insert i (inside a)\<rparr>)"
| go_out: "i \<in> inside a \<Longrightarrow> line a = [] \<Longrightarrow> turn m q a (a\<lparr>inside := inside a - {i}\<rparr>)"
| hand_over: "i \<in> inside a \<Longrightarrow> line a = j # rest \<Longrightarrow>
    turn m q a (a\<lparr>inside := insert j (inside a - {i}), line := rest\<rparr>)"
| give_up: "i \<in> set (line a) \<Longrightarrow> turn m q a (a\<lparr>line := remove1 i (line a)\<rparr>)"
| give_place: "i \<in> in_queue a \<Longrightarrow> i \<notin> set (line a) \<Longrightarrow> turn m q a (a\<lparr>in_queue := in_queue a - {i}\<rparr>)"

section \<open>The server as a turnstile\<close>

definition indices :: "('a \<Rightarrow> bool) \<Rightarrow> 'a list \<Rightarrow> nat set" where
  "indices P xs = {i. i < length xs \<and> P (xs ! i)}"

definition turnstile_of :: "('sem \<Rightarrow> nat list) \<Rightarrow> ('sem, 'tok, 'c) sys \<Rightarrow> turnstile" where
  "turnstile_of waiters s =
     \<lparr>inside = indices holds_permit (phases s), in_queue = indices holds_slot (phases s),
      line = waiters (open_sem s), arrivals = length (conn_tasks s)\<rparr>"

lemma card_indices: "card (indices P xs) = count_if P xs"
  by (simp add: indices_def count_if_def length_filter_conv_card)

lemma indices_update:
  "i < length xs \<Longrightarrow> indices P (xs[i := y]) = (if P y then insert i (indices P xs) else indices P xs - {i})"
  by (auto simp: indices_def nth_list_update)

lemma indices_snoc:
  "indices P (xs @ [y]) = (if P y then insert (length xs) (indices P xs) else indices P xs)"
  by (auto simp: indices_def nth_append less_Suc_eq)

lemma indices_filter: "indices P xs = set (filter (\<lambda>i. P (xs ! i)) [0..<length xs])"
  by (auto simp: indices_def)

lemma indices_iff: "i < length xs \<Longrightarrow> i \<in> indices P xs \<longleftrightarrow> P (xs ! i)"
  by (simp add: indices_def)

lemma length_phases_eq: "length (phases t) = length (phases s) \<Longrightarrow> length (conn_tasks t) = length (conn_tasks s)"
  by simp

lemma turnstile_of_same:
  assumes "phases t = phases s" "open_sem t = open_sem s"
  shows "turnstile_of waiters t = turnstile_of waiters s"
  using assms length_phases_eq [OF arg_cong [OF assms(1), of length]] by (simp add: turnstile_of_def)

text \<open>A step of one task from phase to phase.\<close>

lemma turnstile_of_phase:
  assumes "i < length (conn_tasks s)" "phases t = (phases s)[i := ph]"
  shows "turnstile_of waiters t =
    \<lparr>inside = (if holds_permit ph then insert i (indices holds_permit (phases s))
              else indices holds_permit (phases s) - {i}),
     in_queue = (if holds_slot ph then insert i (indices holds_slot (phases s))
              else indices holds_slot (phases s) - {i}),
     line = waiters (open_sem t), arrivals = length (conn_tasks s)\<rparr>"
proof -
  have "length (conn_tasks t) = length (conn_tasks s)"
    using arg_cong [OF assms(2), of length] by (intro length_phases_eq) simp
  with assms show ?thesis by (simp add: turnstile_of_def indices_update)
qed

context semaphore
begin

abbreviation "view \<equiv> turnstile_of waiters"

lemma gate_view:
  assumes "gate m q (open_sem s) (queue_sem s) (phases s)"
  shows "card (inside (view s)) + permits (open_sem s) = m"
    "card (in_queue (view s)) + permits (queue_sem s) = q"
    "set (line (view s)) = indices (\<lambda>ph. ph = Waiting) (phases s)"
proof -
  show "card (inside (view s)) + permits (open_sem s) = m" "card (in_queue (view s)) + permits (queue_sem s) = q"
    using assms by (simp_all add: turnstile_of_def card_indices gate_inv_def)
  show "set (line (view s)) = indices (\<lambda>ph. ph = Waiting) (phases s)"
    using assms by (simp add: turnstile_of_def gate_inv_def indices_def)
qed

lemma release_open_turn:
  assumes "gate m q (open_sem s) (queue_sem s) (phases s)" "i < length (conn_tasks s)"
    and "holds_permit (phases s ! i)" "ph \<in> {Leaving, Gone}"
    and "holds_slot ph \<longleftrightarrow> holds_slot (phases s ! i)"
  shows "turn m q (view s) (view (release_open S (set_phase i ph s)))"
proof -
  let ?u = "set_phase i ph s"
  have os: "opened (open_sem s)" using assms(1) by (simp add: gate_inv_def)
  have "0 < count_if holds_permit (phases s)" using assms(2,3) by (intro count_if_pos) simp_all
  then have free: "permits (open_sem s) < MAX_PERMITS" using assms(1) by (simp add: gate_inv_def)
  have i: "i \<in> inside (view s)" using assms(2,3) by (simp add: turnstile_of_def indices_iff)
  have slot: "(if holds_slot ph then insert i (indices holds_slot (phases s))
      else indices holds_slot (phases s) - {i}) = indices holds_slot (phases s)"
    using assms(2,5) by (auto simp: indices_iff)
  have u: "turnstile_of w ?u = \<lparr>inside = indices holds_permit (phases s) - {i},
      in_queue = indices holds_slot (phases s), line = w (open_sem s), arrivals = length (conn_tasks s)\<rparr>" for w
    using turnstile_of_phase [of i s ?u ph w] assms(2,4) slot by auto
  obtain who os' where rel: "sem_release S (open_sem s) = (who, os')" by fastforce
  show ?thesis
  proof (cases who)
    case None
    with release_NoneD [OF os free] rel have "waiters (open_sem s) = []" "waiters os' = []" by simp_all
    with turn.go_out [OF i, of m q] rel None u [of waiters] show ?thesis
      by (simp add: release_open_def turnstile_of_def)
  next
    case (Some j)
    with release_SomeD [OF os free] rel have line: "waiters (open_sem s) = j # waiters os'" by simp
    then have j: "j < length (phases s)" "phases s ! j = Waiting" using assms(1) by (auto simp: gate_inv_def)
    then have "i \<noteq> j" using assms(3) by auto
    have "insert j (indices holds_slot (phases s)) = indices holds_slot (phases s)"
      using j by (auto simp: indices_iff)
    moreover have "phases (set_phase j Granted ?u) = (phases ?u)[j := Granted]" by simp
    ultimately have "view (release_open S ?u) = (view s)\<lparr>inside := insert j (inside (view s) - {i}), line := waiters os'\<rparr>"
      using turnstile_of_phase [of j ?u "release_open S ?u" Granted waiters] u [of waiters] j rel Some
      by (simp add: release_open_def turnstile_of_def)
    moreover have "line (view s) = j # waiters os'" using line by (simp add: turnstile_of_def)
    ultimately show ?thesis using turn.hand_over [OF i, of j "waiters os'" m q] by simp
  qed
qed

lemma on_poll_turn:
  assumes "gate m q (open_sem s) (queue_sem s) (phases s)" "i < length (conn_tasks s)"
    and "phases s ! i = Unpolled"
  shows "turn m q (view s) (view (on_poll S i s))"
proof -
  have os: "opened (open_sem s)" using assms(1) by (simp add: gate_inv_def)
  have i: "i \<in> in_queue (view s)" "i \<notin> inside (view s)" "i \<notin> set (line (view s))"
    using assms by (simp_all add: turnstile_of_def indices_iff gate_inv_def)
  have slot: "insert i (indices holds_slot (phases s)) = indices holds_slot (phases s)"
    and permit: "indices holds_permit (phases s) - {i} = indices holds_permit (phases s)"
    using assms(2,3) by (auto simp: indices_iff)
  note card = gate_view(1) [OF assms(1)]
  obtain r os' where acq: "sem_acquire S i (open_sem s) = (r, os')" by fastforce
  show ?thesis
  proof (cases r)
    case AcquireReady
    with acquire_ReadyD [OF os] acq have r: "permits (open_sem s) > 0" "waiters os' = []" "waiters (open_sem s) = []"
      by (metis zero_less_Suc)+
    have "view (on_poll S i s) = (view s)\<lparr>inside := insert i (inside (view s))\<rparr>"
      using turnstile_of_phase [of i s "on_poll S i s" Granted waiters] assms(2) slot acq AcquireReady r
      by (simp add: on_poll_def turnstile_of_def)
    moreover have "card (inside (view s)) < m" using card r(1) by simp
    moreover have "line (view s) = []" using r by (simp add: turnstile_of_def)
    ultimately show ?thesis using turn.call_in [OF i(1,2), of m q] by simp
  next
    case AcquirePending
    with acquire_PendingD [OF os] acq
    have r: "permits (open_sem s) = 0" "waiters os' = waiters (open_sem s) @ [i]" by auto
    have "view (on_poll S i s) = (view s)\<lparr>line := line (view s) @ [i]\<rparr>"
      using turnstile_of_phase [of i s "on_poll S i s" Waiting waiters] assms(2) slot permit acq AcquirePending r
      by (simp add: on_poll_def turnstile_of_def)
    moreover have "card (inside (view s)) = m" using card r(1) by simp
    ultimately show ?thesis using turn.join_line [OF i, of m q] by simp
  next
    case AcquireClosed
    with acq acquire_not_closed [OF os] show ?thesis by simp
  qed
qed

lemma on_abort_turn:
  assumes "gate m q (open_sem s) (queue_sem s) (phases s)" "i < length (conn_tasks s)"
  shows "turn m q (view s) (view (on_abort S i s)) \<or> view (on_abort S i s) = view s"
proof -
  have ph: "phase (conn_tasks s ! i) = phases s ! i" using assms(2) by (simp add: phases_nth)
  have os: "opened (open_sem s)" using assms(1) by (simp add: gate_inv_def)
  show ?thesis
  proof (cases "phases s ! i")
    case Unpolled
    with assms(2) have "insert i (indices holds_slot (phases s)) = indices holds_slot (phases s)"
      "indices holds_permit (phases s) - {i} = indices holds_permit (phases s)"
      by (auto simp: indices_iff)
    with turnstile_of_phase [of i s "on_abort S i s" Leaving waiters] assms(2) Unpolled show ?thesis
      by (simp add: on_abort_def ph turnstile_of_def)
  next
    case Waiting
    with assms(2) have same: "insert i (indices holds_slot (phases s)) = indices holds_slot (phases s)"
      "indices holds_permit (phases s) - {i} = indices holds_permit (phases s)"
      by (auto simp: indices_iff)
    have "i \<in> set (line (view s))" using assms Waiting by (simp add: turnstile_of_def gate_inv_def)
    moreover have "view (on_abort S i s) = (view s)\<lparr>line := remove1 i (line (view s))\<rparr>"
      using turnstile_of_phase [of i s "on_abort S i s" Leaving waiters] assms(2) Waiting same forget [OF os, of i]
      by (simp add: on_abort_def ph turnstile_of_def)
    ultimately show ?thesis using turn.give_up [of i "view s" m q] by simp
  next
    case Granted
    with release_open_turn [OF assms, of Leaving] show ?thesis by (simp add: on_abort_def ph)
  next
    case Serving
    with release_open_turn [OF assms, of Gone] show ?thesis by (simp add: on_abort_def ph)
  qed (simp_all add: on_abort_def ph)
qed

lemma release_queue_turn:
  assumes "gate m q (open_sem s) (queue_sem s) (phases s)" "i < length (conn_tasks s)"
    and "phases s ! i \<in> {Granted, Leaving}" "ph = (if phases s ! i = Granted then Serving else Gone)"
  shows "turn m q (view s) (view (release_queue S (set_phase i ph s)))"
proof -
  have "set (waiters (open_sem s)) = {i. i < length (phases s) \<and> phases s ! i = Waiting}"
    using assms(1) by (simp add: gate_inv_def)
  moreover have "holds_slot (phases s ! i)" "phases s ! i \<noteq> Waiting" using assms(3) by auto
  ultimately have i: "i \<in> in_queue (view s)" "i \<notin> set (line (view s))"
    using assms(2) by (simp_all add: turnstile_of_def indices_iff)
  have "(if holds_permit ph then insert i (indices holds_permit (phases s))
      else indices holds_permit (phases s) - {i}) = indices holds_permit (phases s)"
  proof (cases "phases s ! i = Granted")
    case True
    with assms(2) have "i \<in> indices holds_permit (phases s)" by (simp add: indices_iff)
    with True assms(4) show ?thesis by (simp add: insert_absorb)
  next
    case False
    with assms(2,3) have "i \<notin> indices holds_permit (phases s)" by (simp add: indices_iff)
    with False assms(4) show ?thesis by simp
  qed
  moreover have "\<not> holds_slot ph" using assms(4) by simp
  ultimately have "view (release_queue S (set_phase i ph s)) = (view s)\<lparr>in_queue := in_queue (view s) - {i}\<rparr>"
    using turnstile_of_phase [of i s "release_queue S (set_phase i ph s)" ph waiters] assms(2)
    by (simp add: turnstile_of_def)
  with turn.give_place [OF i, of m q] show ?thesis by simp
qed

lemma sys_step_turn:
  assumes "sys_step S T s t" "sys_gate permits waiters opened m q s"
  shows "turn m q (view s) (view t) \<or> view t = view s"
proof -
  have g: "gate m q (open_sem s) (queue_sem s) (phases s)" using assms(2) by (simp add: sys_gate_def)
  then have opened: "opened (open_sem s)" "opened (queue_sem s)" by (simp_all add: gate_inv_def)
  show ?thesis
    using assms(1)
  proof (cases rule: sys_step.cases)
    case (accept p res)
    show ?thesis
    proof (cases rule: on_accept_effect [of S T p res s])
      case same
      with accept have "view t = view s" by (intro turnstile_of_same) (simp_all add: phases_def)
      then show ?thesis ..
    next
      case (spawn os' sock)
      note acq = try_acquire_SomeD [OF opened(1) spawn(1)]
      have "view t = (view s)\<lparr>inside := insert (arrivals (view s)) (inside (view s)),
          arrivals := Suc (arrivals (view s))\<rparr>"
        using accept spawn acq by (simp add: turnstile_of_def phases_def indices_snoc spawned_def)
      moreover have "card (inside (view s)) < m" using gate_view(1) [OF g] acq(2) by simp
      moreover have "line (view s) = []" using acq by (simp add: turnstile_of_def)
      ultimately show ?thesis using turn.enter [of "view s" m q] by simp
    qed
  next
    case (queue p sock)
    show ?thesis
    proof (cases rule: on_queueing_effect [of S s p sock])
      case reject
      with queue show ?thesis by (intro disjI2 turnstile_of_same) simp_all
    next
      case (spawn qs')
      note acq = try_acquire_SomeD [OF opened(2) spawn(1)]
      have "view t = (view s)\<lparr>in_queue := insert (arrivals (view s)) (in_queue (view s)),
          arrivals := Suc (arrivals (view s))\<rparr>"
        using queue spawn by (simp add: turnstile_of_def phases_def indices_snoc spawned_def)
      moreover have "card (in_queue (view s)) < q" using gate_view(2) [OF g] acq(2) by simp
      ultimately show ?thesis using turn.queue_up [of "view s" q m] by simp
    qed
  next
    case (poll i)
    with on_poll_turn [OF g] show ?thesis by (simp add: phases_nth)
  next
    case (leave_queue i)
    with release_queue_turn [OF g, of i Serving] show ?thesis by (simp add: phases_nth)
  next
    case (finish i)
    with release_open_turn [OF g, of i Gone] show ?thesis by (simp add: phases_nth)
  next
    case (leave i)
    with release_queue_turn [OF g, of i Gone] show ?thesis by (simp add: phases_nth)
  next
    case (abort i)
    with on_abort_turn [OF g] show ?thesis by simp
  qed (intro disjI2 turnstile_of_same; simp)+
qed

end

text \<open>
  C7: the server refines the turnstile. It starts as an empty one, and from any state it can reach,
  whichever task takes the next step, that step is one move of a turnstile or nothing to it. The
  turnstile has \<open>max_connections\<close> places inside and \<open>max_queue\<close> in its queue.
\<close>

theorem server_refines_turnstile:
  assumes "semaphore S permits waiters opened"
    and "proxy_server_new S factory bal cfg tok max_connections max_queue addr buf_size = Some srv"
    and "sys_reaches S T (sys_start srv ps now) s" "sys_step S T s t"
  shows "turnstile_of waiters (sys_start srv ps now :: ('sem, 'tok, 'c) sys) = turnstile_start
    \<and> (turn (unat max_connections) (unat max_queue) (turnstile_of waiters s) (turnstile_of waiters t)
       \<or> turnstile_of waiters t = turnstile_of waiters s)"
proof -
  have "waiters (open_connections srv) = []"
    using assms(2) semaphore.new_SomeD(3) [OF assms(1), of max_connections]
    by (auto simp: proxy_server_new_def split: option.splits)
  then have "turnstile_of waiters (sys_start srv ps now :: ('sem, 'tok, 'c) sys) = turnstile_start"
    by (simp add: turnstile_of_def turnstile_start_def sys_start_def phases_def indices_def)
  with semaphore.sys_step_turn [OF assms(1,4) semaphore.reachable_gate [OF assms(1-3)]] show ?thesis by blast
qed

theorem server_refines_turnstile_witness:
  "turn 1 2 \<lparr>inside = {0}, in_queue = {1, 2}, line = [1, 2], arrivals = 3\<rparr>
     \<lparr>inside = {1}, in_queue = {1, 2}, line = [2], arrivals = 3\<rparr>"
proof -
  let ?s = "demo_sys 0 [1, 2] 0 Reaping [(''c0'', Serving), (''c1'', Waiting), (''c2'', Waiting)]"
  let ?t = "release_open fifo_ops (set_phase 0 Gone ?s)"
  have step: "sys_step fifo_ops flag_ops ?s ?t"
    by (rule sys_step.finish) (simp_all add: demo_sys_def spawned_def)
  have phs: "phases ?s = [Serving, Waiting, Waiting]" "phases ?t = [Gone, Granted, Waiting]"
    by (simp_all add: demo_sys_def phases_def spawned_def set_phase_def release_open_def fifo_simps)
  have s: "turnstile_of wait_queue ?s = \<lparr>inside = {0}, in_queue = {1, 2}, line = [1, 2], arrivals = 3\<rparr>"
    unfolding turnstile_of_def phs(1) by (simp add: indices_filter upt_rec demo_sys_def numeral_2_eq_2)
  have t: "turnstile_of wait_queue ?t = \<lparr>inside = {1}, in_queue = {1, 2}, line = [2], arrivals = 3\<rparr>"
    unfolding turnstile_of_def phs(2)
    by (simp add: indices_filter upt_rec demo_sys_def release_open_def fifo_simps set_phase_def numeral_2_eq_2)
  have "unat (1 :: usize) = 1" "unat (2 :: usize) = 2" by simp_all
  with server_refines_turnstile [OF fifo.semaphore_axioms demo_srv_new demo_line step] s t
  show ?thesis by auto
qed

end
