(* ===== verification/Proxy_Termination.thy ===== *)
theory Proxy_Termination
  imports Proxy_Shutdown
begin

text \<open>
  The shutdown of the server of \<open>src/proxy.rs\<close> terminates: once every listener has left its accept
  loop, each step of a task, of a listener or of the main task takes away from a finite amount of
  work, and as long as the server has not returned such a step exists when the deadlines are over.
\<close>

section \<open>The work that is left\<close>

fun phase_work :: "task_phase \<Rightarrow> nat" where
  "phase_work Unpolled = 5"
| "phase_work Waiting = 4"
| "phase_work Granted = 3"
| "phase_work Serving = 1"
| "phase_work Leaving = 1"
| "phase_work Gone = 0"

fun listener_work :: "'c listener \<Rightarrow> nat" where
  "listener_work (Draining r d) = 2"
| "listener_work (Ended x) = 1"
| "listener_work _ = 0"

fun main_work :: "main_phase \<Rightarrow> nat" where
  "main_work (Joining fe) = 1"
| "main_work (Returned r) = 0"

definition tasks_work :: "('sem, 'tok, 'c) sys \<Rightarrow> nat" where
  "tasks_work s = sum_list (map phase_work (phases s)) + count_if (\<lambda>(p, a, j). \<not> j) (flags s)"

definition listeners_work :: "('sem, 'tok, 'c) sys \<Rightarrow> nat" where
  "listeners_work s = (\<Sum>p \<in> dom (listeners s). listener_work (the (listeners s p)))"

definition work :: "('sem, 'tok, 'c) sys \<Rightarrow> nat" where
  "work s = tasks_work s + listeners_work s + main_work (main_phase s)"

text \<open>No listener is in its accept loop any more.\<close>

definition closing :: "('sem, 'tok, 'c) sys \<Rightarrow> bool" where
  "closing s \<longleftrightarrow> (\<forall>p l. listeners s p = Some l \<longrightarrow>
     (\<exists>r d. l = Draining r d) \<or> (\<exists>x. l = Ended x) \<or> (\<exists>x. l = Retired x))"

lemma closing_update:
  assumes "closing s" "listeners t = (listeners s)(p \<mapsto> l')"
    and "(\<exists>x. l' = Ended x) \<or> (\<exists>x. l' = Retired x)"
  shows "closing t"
  unfolding closing_def
proof (intro allI impI)
  fix q k assume k: "listeners t q = Some k"
  show "(\<exists>r d. k = Draining r d) \<or> (\<exists>x. k = Ended x) \<or> (\<exists>x. k = Retired x)"
  proof (cases "q = p")
    case True
    with k assms(2) have "k = l'" by simp
    with assms(3) show ?thesis by blast
  next
    case False
    with k assms(2) have "listeners s q = Some k" by simp
    with assms(1) show ?thesis unfolding closing_def by blast
  qed
qed

text \<open>Steps that only pass the time or repeat the signal.\<close>

definition quiet :: "('sem, 'tok, 'c) sys \<Rightarrow> ('sem, 'tok, 'c) sys \<Rightarrow> bool" where
  "quiet s t \<longleftrightarrow> t = s\<lparr>token := token t, clock := clock t\<rparr>"

lemma sum_list_map_update:
  fixes f :: "'a \<Rightarrow> nat"
  assumes "i < length xs"
  shows "sum_list (map f (xs[i := y])) + f (xs ! i) = sum_list (map f xs) + f y"
  using assms
proof (induction xs arbitrary: i)
  case (Cons x xs)
  then show ?case by (cases i) auto
qed simp

text \<open>A task that moves on, and a listener that moves on.\<close>

lemma tasks_work_phase:
  assumes "i < length (conn_tasks s)" "phases t = (phases s)[i := ph]" "flags t = flags s"
    and "phase_work ph < phase_work (phases s ! i)"
  shows "tasks_work t < tasks_work s"
  using sum_list_map_update [of i "phases s" phase_work ph] assms by (simp add: tasks_work_def)

lemma listeners_work_update:
  assumes "finite (dom (listeners s))" "listeners s p = Some l" "listeners t = (listeners s)(p \<mapsto> l')"
    and "listener_work l' < listener_work l"
  shows "listeners_work t < listeners_work s"
proof -
  have dom: "dom (listeners t) = dom (listeners s)" using assms(2,3) by auto
  have "(\<Sum>q \<in> dom (listeners s). listener_work (the (listeners t q)))
      < (\<Sum>q \<in> dom (listeners s). listener_work (the (listeners s q)))"
    by (rule sum_strict_mono_ex1 [OF assms(1)]) (use assms in \<open>auto intro!: bexI [of _ p]\<close>)
  then show ?thesis by (simp add: listeners_work_def dom)
qed

lemma work_parts:
  assumes "tasks_work t \<le> tasks_work s" "listeners_work t \<le> listeners_work s"
    and "main_work (main_phase t) \<le> main_work (main_phase s)"
    and "tasks_work t < tasks_work s \<or> listeners_work t < listeners_work s
      \<or> main_work (main_phase t) < main_work (main_phase s)"
  shows "work t < work s"
  using assms by (auto simp: work_def)

lemma tasks_work_same: "phases t = phases s \<Longrightarrow> flags t = flags s \<Longrightarrow> tasks_work t = tasks_work s"
  by (simp add: tasks_work_def)

lemma listeners_work_same: "listeners t = listeners s \<Longrightarrow> listeners_work t = listeners_work s"
  by (simp add: listeners_work_def)

lemma tasks_work_abort [simp]: "tasks_work (abort_tasks p s) = tasks_work s"
proof -
  have "count_if (\<lambda>(p, a, j). \<not> j) (map (\<lambda>(q, a, j). (q, a \<or> q = p \<and> \<not> j, j)) fs)
      = count_if (\<lambda>(p, a, j). \<not> j) fs" for fs
    by (induction fs) (auto simp: count_simps)
  then show ?thesis by (simp add: tasks_work_def flags_abort_tasks)
qed

lemma tasks_work_set_listener [simp]: "tasks_work (set_listener p l s) = tasks_work s"
  by (rule tasks_work_same) simp_all

lemma tasks_work_join_task:
  assumes "i < length (conn_tasks s)" "\<not> joined (conn_tasks s ! i)"
  shows "tasks_work (join_task i s) < tasks_work s"
proof -
  have i: "i < length (flags s)" "\<not> snd (snd (flags s ! i))" using assms by (simp_all add: flags_def)
  then show ?thesis
    using count_if_update [OF i(1), of "\<lambda>(p, a, j). \<not> j"
        "(task_port (conn_tasks s ! i), aborting (conn_tasks s ! i), True)"] assms
    by (auto simp: tasks_work_def flags_join_task split_def)
qed

context semaphore
begin

lemma release_open_work:
  assumes "gate m q (open_sem s) (queue_sem s) (phases s)" "i < length (conn_tasks s)"
    and "holds_permit (phases s ! i)" "phase_work ph < phase_work (phases s ! i)"
  shows "tasks_work (release_open S (set_phase i ph s)) < tasks_work s"
proof -
  let ?u = "set_phase i ph s"
  have u: "tasks_work ?u < tasks_work s" using assms(2,4) by (intro tasks_work_phase [of i s _ ph]) simp_all
  have os: "opened (open_sem s)" using assms(1) by (simp add: gate_inv_def)
  have "0 < count_if holds_permit (phases s)" using assms(2,3) by (intro count_if_pos) simp_all
  then have free: "permits (open_sem s) < MAX_PERMITS" using assms(1) by (simp add: gate_inv_def)
  obtain who os' where rel: "sem_release S (open_sem s) = (who, os')" by fastforce
  show ?thesis
  proof (cases who)
    case None
    with rel have "tasks_work (release_open S ?u) = tasks_work ?u"
      by (intro tasks_work_same) (simp_all add: release_open_def)
    with u show ?thesis by simp
  next
    case (Some j)
    with release_SomeD [OF os free] rel have "j \<in> set (waiters (open_sem s))" by simp
    then have j: "j < length (phases s)" "phases s ! j = Waiting" using assms(1) by (auto simp: gate_inv_def)
    then have "i \<noteq> j" using assms(3) by auto
    with j have "phase_work Granted < phase_work (phases ?u ! j)" by simp
    with j rel Some have "tasks_work (release_open S ?u) < tasks_work ?u"
      by (intro tasks_work_phase [of j ?u _ Granted]) (simp_all add: release_open_def)
    with u show ?thesis by simp
  qed
qed

text \<open>Each step of a task.\<close>

lemma on_poll_work:
  assumes "gate m q (open_sem s) (queue_sem s) (phases s)" "i < length (conn_tasks s)"
    and "phase (conn_tasks s ! i) = Unpolled"
  shows "tasks_work (on_poll S i s) < tasks_work s"
proof -
  have os: "opened (open_sem s)" using assms(1) by (simp add: gate_inv_def)
  have i: "phases s ! i = Unpolled" using assms by (simp add: phases_nth)
  obtain r os' where acq: "sem_acquire S i (open_sem s) = (r, os')" by fastforce
  with acquire_not_closed [OF os] have "\<exists>ph \<in> {Granted, Waiting}. phases (on_poll S i s) = (phases s)[i := ph]"
    by (cases r) (auto simp: on_poll_def)
  then obtain ph where "ph \<in> {Granted, Waiting}" "phases (on_poll S i s) = (phases s)[i := ph]" by blast
  with assms(2) i show ?thesis by (intro tasks_work_phase [of i s _ ph]) auto
qed

lemma leave_queue_work:
  assumes "i < length (conn_tasks s)" "phase (conn_tasks s ! i) = Granted"
  shows "tasks_work (release_queue S (set_phase i Serving s)) < tasks_work s"
  using assms by (intro tasks_work_phase [of i s _ Serving]) (simp_all add: phases_nth)

lemma leave_work:
  assumes "i < length (conn_tasks s)" "phase (conn_tasks s ! i) = Leaving"
  shows "tasks_work (release_queue S (set_phase i Gone s)) < tasks_work s"
  using assms by (intro tasks_work_phase [of i s _ Gone]) (simp_all add: phases_nth)

lemma finish_work:
  assumes "gate m q (open_sem s) (queue_sem s) (phases s)" "i < length (conn_tasks s)"
    and "phase (conn_tasks s ! i) = Serving"
  shows "tasks_work (release_open S (set_phase i Gone s)) < tasks_work s"
  using assms release_open_work [OF assms(1,2), of Gone] by (simp add: phases_nth)

lemma on_abort_work:
  assumes "gate m q (open_sem s) (queue_sem s) (phases s)" "i < length (conn_tasks s)"
    and "phase (conn_tasks s ! i) \<notin> {Leaving, Gone}"
  shows "tasks_work (on_abort S i s) < tasks_work s"
proof -
  have ph: "phase (conn_tasks s ! i) = phases s ! i" using assms(2) by (simp add: phases_nth)
  show ?thesis
  proof (cases "phases s ! i")
    case Unpolled
    with assms(2) show ?thesis by (intro tasks_work_phase [of i s _ Leaving]) (simp_all add: on_abort_def ph)
  next
    case Waiting
    with assms(2) show ?thesis by (intro tasks_work_phase [of i s _ Leaving]) (simp_all add: on_abort_def ph)
  next
    case Granted
    with release_open_work [OF assms(1,2), of Leaving] show ?thesis by (simp add: on_abort_def ph)
  next
    case Serving
    with release_open_work [OF assms(1,2), of Gone] show ?thesis by (simp add: on_abort_def ph)
  qed (use assms(3) ph in simp_all)
qed

lemma sys_step_work:
  assumes "sys_step S T s t" "closing s" "finite (dom (listeners s))"
    and "sys_gate permits waiters opened m q s"
  shows "closing t \<and> (quiet s t \<and> work t = work s \<or> work t < work s)"
proof -
  have g: "gate m q (open_sem s) (queue_sem s) (phases s)" using assms(4) by (simp add: sys_gate_def)
  have task: "closing t \<and> (quiet s t \<and> work t = work s \<or> work t < work s)"
    if "listeners t = listeners s" "main_phase t = main_phase s" "tasks_work t < tasks_work s"
    using that assms(2) listeners_work_same [OF that(1)] by (simp add: closing_def work_def)
  have listener: "closing t \<and> (quiet s t \<and> work t = work s \<or> work t < work s)"
    if "listeners t = (listeners s)(p \<mapsto> l')" "listeners s p = Some l" "listener_work l' < listener_work l"
      "(\<exists>x. l' = Ended x) \<or> (\<exists>x. l' = Retired x)" "tasks_work t = tasks_work s"
      "main_work (main_phase t) = main_work (main_phase s)" for p l l'
  proof -
    have "closing t" using assms(2) that(1,4) by (rule closing_update)
    moreover have "work t < work s"
      using listeners_work_update [OF assms(3) that(2,1,3)] that(5,6) by (simp add: work_def)
    ultimately show ?thesis by blast
  qed
  from assms(1) show ?thesis
  proof (cases rule: sys_step.cases)
    case (reap p l i)
    then show ?thesis by (intro task) (simp_all add: tasks_work_join_task joinable_def)
  next
    case (drained p r d)
    then show ?thesis by (intro listener [of p "Ended (Exited r)" "Draining r d"]) simp_all
  next
    case (deadline p r d)
    then show ?thesis by (intro listener [of p "Ended (Exited r)" "Draining r d"]) simp_all
  next
    case (panic p l message)
    then obtain r d where "l = Draining r d" using assms(2) unfolding closing_def by blast
    with panic show ?thesis by (intro listener [of p "Ended (JoinFailed message)" l]) simp_all
  next
    case (join fe p x tok' fe')
    have "tasks_work t = tasks_work s" using join by (intro tasks_work_same) simp_all
    with join show ?thesis by (intro listener [of p "Retired x" "Ended x"]) simp_all
  next
    case (return fe)
    then have "tasks_work t = tasks_work s" "listeners_work t = listeners_work s"
      by (simp_all add: tasks_work_def flags_def listeners_work_def)
    with return assms(2) show ?thesis by (simp add: closing_def work_def)
  next
    case (poll i)
    with on_poll_work [OF g] show ?thesis by (intro task) simp_all
  next
    case (leave_queue i)
    with leave_queue_work show ?thesis by (intro task) simp_all
  next
    case (finish i)
    with finish_work [OF g] show ?thesis by (intro task) simp_all
  next
    case (leave i)
    with leave_work show ?thesis by (intro task) simp_all
  next
    case (abort i)
    with on_abort_work [OF g] show ?thesis by (intro task) simp_all
  next
    case signal
    then show ?thesis using assms(2)
      by (simp add: quiet_def closing_def work_def tasks_work_def listeners_work_def)
  next
    case (tick d)
    then show ?thesis using assms(2)
      by (simp add: quiet_def closing_def work_def tasks_work_def listeners_work_def)
  qed (use assms(2) in \<open>auto simp: closing_def\<close>)
qed

end

section \<open>Termination\<close>

text \<open>A run, with the number of its steps that are more than the passing of time.\<close>

inductive sys_run ::
  "'sem semaphore_ops \<Rightarrow> 'tok token_ops \<Rightarrow> ('sem, 'tok, 'c) sys \<Rightarrow> nat \<Rightarrow> ('sem, 'tok, 'c) sys \<Rightarrow> bool"
  for S :: "'sem semaphore_ops" and T :: "'tok token_ops" and s :: "('sem, 'tok, 'c) sys" where
  start: "sys_run S T s 0 s"
| idle: "sys_run S T s n t \<Longrightarrow> sys_step S T t u \<Longrightarrow> quiet t u \<Longrightarrow> sys_run S T s n u"
| progress: "sys_run S T s n t \<Longrightarrow> sys_step S T t u \<Longrightarrow> \<not> quiet t u \<Longrightarrow> sys_run S T s (Suc n) u"

lemma tasks_work_le: "tasks_work s \<le> 6 * length (conn_tasks s)"
proof -
  have "sum_list (map phase_work phs) \<le> 5 * length phs" for phs
  proof (induction phs)
    case (Cons ph phs)
    then show ?case by (cases ph) simp_all
  qed simp
  from this [of "phases s"] have "sum_list (map phase_work (phases s)) \<le> 5 * length (conn_tasks s)" by simp
  moreover have "count_if (\<lambda>(p, a, j). \<not> j) (flags s) \<le> length (conn_tasks s)"
    unfolding count_if_def by (rule order_trans [OF length_filter_le]) simp
  ultimately show ?thesis by (simp add: tasks_work_def)
qed

lemma listeners_work_le: "listeners_work s \<le> 2 * card (dom (listeners s))"
proof -
  have "listener_work l \<le> 2" for l :: "'c listener" by (cases l) simp_all
  then have "listeners_work s \<le> (\<Sum>p \<in> dom (listeners s). 2)"
    unfolding listeners_work_def by (intro sum_mono) simp
  then show ?thesis by simp
qed

lemma work_le: "work s \<le> 6 * length (conn_tasks s) + 2 * card (dom (listeners s)) + 1"
proof -
  have "main_work (main_phase s) \<le> 1" by (cases "main_phase s") simp_all
  with tasks_work_le [of s] listeners_work_le [of s] show ?thesis by (simp add: work_def)
qed

context semaphore
begin

lemma sys_run_work:
  assumes "sys_run S T s n t" "closing s" "finite (dom (listeners s))"
    and "sys_gate permits waiters opened m q s"
  shows "n + work t \<le> work s \<and> closing t \<and> finite (dom (listeners t))
    \<and> sys_gate permits waiters opened m q t"
  using assms
proof (induction rule: sys_run.induct)
  case (idle n t u)
  then show ?case using sys_step_work [of T t u m q] sys_step_gate [of T t u m q] dom_invariant [of S T t u]
    by auto
next
  case (progress n t u)
  then show ?case using sys_step_work [of T t u m q] sys_step_gate [of T t u m q] dom_invariant [of S T t u]
    by auto
qed simp

end

text \<open>While the server has not returned and the deadlines are over, something can be done.\<close>

lemma quietD:
  assumes "quiet s t"
  shows "listeners t = listeners s" "main_phase t = main_phase s"
proof -
  from assms have t: "t = s\<lparr>token := token t, clock := clock t\<rparr>" by (simp add: quiet_def)
  show "listeners t = listeners s" using arg_cong [OF t, of listeners] by simp
  show "main_phase t = main_phase s" using arg_cong [OF t, of main_phase] by simp
qed

lemma closing_progress:
  assumes "closing s" "main_phase s = Joining fe"
    and "\<forall>p r d. listeners s p = Some (Draining r d) \<longrightarrow> d \<le> clock s"
  shows "\<exists>t. sys_step S T s t \<and> \<not> quiet s t"
proof (cases "\<exists>p l. listeners s p = Some l \<and> \<not> (\<exists>x. l = Retired x)")
  case True
  then obtain p l where p: "listeners s p = Some l" "\<not> (\<exists>x. l = Retired x)" by blast
  then consider (draining) r d where "l = Draining r d" | (ended) x where "l = Ended x"
    using assms(1) unfolding closing_def by blast
  then show ?thesis
  proof cases
    case draining
    let ?t = "set_listener p (Ended (Exited r)) (abort_tasks p s)"
    have "sys_step S T s ?t" using p draining assms(3) by (intro sys_step.deadline) auto
    moreover have "listeners ?t p \<noteq> listeners s p" using p draining by simp
    ultimately show ?thesis using quietD(1) [of s ?t] by metis
  next
    case ended
    obtain tok' fe' where j: "on_listener_joined T x (token s, fe) = (tok', fe')" by fastforce
    let ?t = "set_listener p (Retired x) (s\<lparr>token := tok', main_phase := Joining fe'\<rparr>)"
    have "sys_step S T s ?t" using p ended assms(2) j by (intro sys_step.join) auto
    moreover have "listeners ?t p \<noteq> listeners s p" using p ended by simp
    ultimately show ?thesis using quietD(1) [of s ?t] by metis
  qed
next
  case False
  let ?t = "s\<lparr>main_phase := Returned (run_result fe)\<rparr>"
  have "sys_step S T s ?t" using False assms(2) by (intro sys_step.return) auto
  moreover have "main_phase ?t \<noteq> main_phase s" using assms(2) by simp
  ultimately show ?thesis using quietD(2) [of s ?t] by metis
qed

text \<open>
  C22: a shutdown terminates. Once every listener has left its accept loop, whatever the scheduler
  does, the tasks, listeners and the main task take a bounded number of steps: six for each
  connection, two for each listener, and one. When none is left to take and the deadlines are over,
  the server has returned.
\<close>

theorem shutdown_terminates:
  assumes "semaphore S permits waiters opened"
    and "proxy_server_new S factory bal cfg tok max_connections max_queue addr buf_size = Some srv"
    and "sys_reaches S T (sys_start srv ps now) s" "closing s" "sys_run S T s n t"
  shows "n \<le> 6 * length (conn_tasks s) + 2 * card (dom (listeners s)) + 1
    \<and> ((\<forall>u. sys_step S T t u \<longrightarrow> quiet t u) \<longrightarrow>
        (\<forall>p r d. listeners t p = Some (Draining r d) \<longrightarrow> d \<le> clock t) \<longrightarrow>
        (\<exists>r. main_phase t = Returned r))"
proof -
  note run = semaphore.sys_run_work [OF assms(1,5,4) reachable_finite [OF assms(3)]
      semaphore.reachable_gate [OF assms(1-3)]]
  with work_le [of s] have "n \<le> 6 * length (conn_tasks s) + 2 * card (dom (listeners s)) + 1"
    by linarith
  moreover have "\<exists>r. main_phase t = Returned r"
    if "\<forall>u. sys_step S T t u \<longrightarrow> quiet t u"
      "\<forall>p r d. listeners t p = Some (Draining r d) \<longrightarrow> d \<le> clock t"
  proof (cases "main_phase t")
    case (Joining fe)
    with closing_progress [of t fe S T] run that show ?thesis by blast
  qed simp
  ultimately show ?thesis by blast
qed

lemma demo_draining_fields [simp]:
  "main_phase demo_draining = Joining None" "clock demo_draining = 0"
  "listeners demo_draining = [80 \<mapsto> Draining (Ok ()) (from_secs 10)]"
  "length (conn_tasks demo_draining) = 2"
  by (simp_all add: demo_draining_def) (simp_all add: demo_sys_def)

lemma demo_shutdown_run: "sys_run fifo_ops flag_ops demo_draining 3 demo_returned"
proof -
  let ?d = "demo_draining\<lparr>clock := clock demo_draining + from_secs 10\<rparr>"
  let ?r = "set_listener 80 (Retired (Exited (Ok ())))
     (demo_aborting\<lparr>token := True, main_phase := Joining None\<rparr>)"
  have fields: "listeners demo_aborting 80 = Some (Ended (Exited (Ok ())))"
    "main_phase demo_aborting = Joining None" "token demo_aborting = True"
    "dom (listeners demo_aborting) = {80}"
    by (simp_all add: demo_aborting_def) (simp add: demo_draining_def demo_sys_def)
  have "sys_run fifo_ops flag_ops demo_draining 0 ?d"
    by (rule sys_run.idle [OF sys_run.start sys_step.tick]) (simp add: quiet_def)
  moreover have "sys_step fifo_ops flag_ops ?d demo_aborting"
    using sys_step.deadline [of ?d 80 "Ok ()" "from_secs 10"] by (simp add: demo_aborting_def)
  moreover have "\<not> quiet ?d demo_aborting" by (auto dest!: quietD(1) fun_cong [of _ _ 80] simp: fields)
  ultimately have "sys_run fifo_ops flag_ops demo_draining (Suc 0) demo_aborting"
    by (rule sys_run.progress)
  moreover have "sys_step fifo_ops flag_ops demo_aborting ?r"
    by (rule sys_step.join [of _ None]) (simp_all add: fields)
  moreover have "\<not> quiet demo_aborting ?r" by (auto dest!: quietD(1) fun_cong [of _ _ 80] simp: fields)
  ultimately have "sys_run fifo_ops flag_ops demo_draining (Suc (Suc 0)) ?r" by (rule sys_run.progress)
  moreover have "sys_step fifo_ops flag_ops ?r demo_returned"
  proof -
    have "\<forall>p l. listeners ?r p = Some l \<longrightarrow> (\<exists>x. l = Retired x)"
      using fields(4) by (auto simp: dom_def split: if_splits)
    then have "sys_step fifo_ops flag_ops ?r (?r\<lparr>main_phase := Returned (run_result None)\<rparr>)"
      by (intro sys_step.return) simp_all
    then show ?thesis by (simp add: demo_returned_def)
  qed
  moreover have "\<not> quiet ?r demo_returned" by (auto dest!: quietD(2))
  ultimately have "sys_run fifo_ops flag_ops demo_draining (Suc (Suc (Suc 0))) demo_returned"
    by (rule sys_run.progress)
  then show ?thesis by (simp add: numeral_3_eq_3)
qed

theorem shutdown_terminates_witness:
  "sys_run fifo_ops flag_ops demo_draining 3 demo_returned
    \<and> 3 \<le> 6 * length (conn_tasks demo_draining) + 2 * card (dom (listeners demo_draining)) + 1"
proof -
  have "closing demo_draining" by (simp add: closing_def)
  with shutdown_terminates [OF fifo.semaphore_axioms demo_srv_new demo_draining_reached this demo_shutdown_run]
    demo_shutdown_run show ?thesis by blast
qed

end
