(* ===== verification/Streams.thy ===== *)
theory Streams
  imports Errors
begin

text \<open>
  What the test code of \<open>src/proxy.rs\<close> and \<open>src/proxyharness.rs\<close> uses of tokio's streams: the pair of
  connected ends \<open>duplex\<close> gives, the calls on an end, and the copying between two ends. They are
  outside the repository, so the model takes them as a dictionary over a world of streams. A call
  that would wait is \<open>None\<close>. A pair of byte queues is the instance the unit tests are run on.
\<close>

section \<open>The operations\<close>

text \<open>
  \<open>copy_poll n a b\<close> is a poll of the \<open>copy_bidirectional_with_sizes\<close> of \<open>do_connection\<close>, with the size
  of both buffers; the numbers of bytes it returns are dropped there.
\<close>

record ('e, 'w) stream_ops =
  duplex :: "nat \<Rightarrow> 'w \<Rightarrow> ('e \<times> 'e) \<times> 'w"
  stream_write :: "'e \<Rightarrow> string \<Rightarrow> 'w \<Rightarrow> (io_error + unit) option \<times> 'w"
  stream_read :: "'e \<Rightarrow> nat \<Rightarrow> 'w \<Rightarrow> (io_error + string) option \<times> 'w"
  stream_read_exact :: "'e \<Rightarrow> nat \<Rightarrow> 'w \<Rightarrow> (io_error + string) option \<times> 'w"
  stream_shutdown :: "'e \<Rightarrow> 'w \<Rightarrow> 'w"
  stream_drop :: "'e \<Rightarrow> 'w \<Rightarrow> 'w"
  copy_poll :: "usize \<Rightarrow> 'e \<Rightarrow> 'e \<Rightarrow> 'w \<Rightarrow> (io_error + unit) option \<times> 'w"

section \<open>Pairs of byte queues\<close>

text \<open>
  An end holds the bytes that have come in, whether the other end has stopped writing, and whether
  it has been dropped itself. The ends of pair \<open>k\<close> are numbers \<open>2 * k\<close> and \<open>2 * k + 1\<close>.
\<close>

record pipe_end =
  inbox :: string
  inbox_size :: nat
  inbox_closed :: bool
  dropped :: bool

type_synonym pipes = "pipe_end list"

definition fresh_end :: "nat \<Rightarrow> pipe_end" where
  "fresh_end n = \<lparr>inbox = [], inbox_size = n, inbox_closed = False, dropped = False\<rparr>"

definition peer :: "nat \<Rightarrow> nat" where
  "peer e = (if even e then Suc e else e - 1)"

definition pipe_new :: "nat \<Rightarrow> pipes \<Rightarrow> (nat \<times> nat) \<times> pipes" where
  "pipe_new n w = ((length w, Suc (length w)), w @ [fresh_end n, fresh_end n])"

definition pipe_write :: "nat \<Rightarrow> string \<Rightarrow> pipes \<Rightarrow> (io_error + unit) option \<times> pipes" where
  "pipe_write e bs w =
     (let p = w ! peer e in
      if dropped p \<or> inbox_closed p then (Some (Err (Io_Error BrokenPipe ''broken pipe'')), w)
      else if inbox_size p < length (inbox p @ bs) then (None, w)
      else (Some (Ok ()), w[peer e := p\<lparr>inbox := inbox p @ bs\<rparr>]))"

definition pipe_read :: "nat \<Rightarrow> nat \<Rightarrow> pipes \<Rightarrow> (io_error + string) option \<times> pipes" where
  "pipe_read e n w =
     (let p = w ! e in
      if inbox p = [] then (if inbox_closed p then Some (Ok []) else None, w)
      else (Some (Ok (take n (inbox p))), w[e := p\<lparr>inbox := drop n (inbox p)\<rparr>]))"

definition pipe_read_exact :: "nat \<Rightarrow> nat \<Rightarrow> pipes \<Rightarrow> (io_error + string) option \<times> pipes" where
  "pipe_read_exact e n w =
     (let p = w ! e in
      if n \<le> length (inbox p)
      then (Some (Ok (take n (inbox p))), w[e := p\<lparr>inbox := drop n (inbox p)\<rparr>])
      else if inbox_closed p then (Some (Err (Io_Error UnexpectedEof ''early eof'')), w)
      else (None, w))"

definition pipe_shutdown :: "nat \<Rightarrow> pipes \<Rightarrow> pipes" where
  "pipe_shutdown e w = w[peer e := (w ! peer e)\<lparr>inbox_closed := True\<rparr>]"

definition pipe_drop :: "nat \<Rightarrow> pipes \<Rightarrow> pipes" where
  "pipe_drop e w = pipe_shutdown e (w[e := (w ! e)\<lparr>inbox := [], dropped := True\<rparr>])"

text \<open>One direction of the copy: \<open>Ok True\<close> when it has passed on the end of the stream.\<close>

definition pipe_copy :: "nat \<Rightarrow> nat \<Rightarrow> pipes \<Rightarrow> (io_error + bool) \<times> pipes" where
  "pipe_copy a b w =
     (let p = w ! a in
      if inbox p = [] then
        (Ok (inbox_closed p), if inbox_closed p then pipe_shutdown b w else w)
      else
        (case pipe_write b (inbox p) w of
           (Some (Err e), w1) \<Rightarrow> (Err e, w1)
         | (None, w1) \<Rightarrow> (Ok False, w1)
         | (Some (Ok _), w1) \<Rightarrow>
             (let w2 = w1[a := p\<lparr>inbox := []\<rparr>] in
              (Ok (inbox_closed p), if inbox_closed p then pipe_shutdown b w2 else w2))))"

definition pipe_copy_poll :: "usize \<Rightarrow> nat \<Rightarrow> nat \<Rightarrow> pipes \<Rightarrow> (io_error + unit) option \<times> pipes" where
  "pipe_copy_poll n a b w =
     (case pipe_copy a b w of
        (Err e, w1) \<Rightarrow> (Some (Err e), w1)
      | (Ok done1, w1) \<Rightarrow>
          (case pipe_copy b a w1 of
             (Err e, w2) \<Rightarrow> (Some (Err e), w2)
           | (Ok done2, w2) \<Rightarrow> (if done1 \<and> done2 then Some (Ok ()) else None, w2)))"

definition pipe_ops :: "(nat, pipes) stream_ops" where
  "pipe_ops =
     \<lparr>duplex = pipe_new, stream_write = pipe_write, stream_read = pipe_read,
      stream_read_exact = pipe_read_exact, stream_shutdown = pipe_shutdown, stream_drop = pipe_drop,
      copy_poll = pipe_copy_poll\<rparr>"

lemma pipe_ops_simps [simp]:
  "duplex pipe_ops = pipe_new" "stream_write pipe_ops = pipe_write" "stream_read pipe_ops = pipe_read"
  "stream_read_exact pipe_ops = pipe_read_exact" "stream_shutdown pipe_ops = pipe_shutdown"
  "stream_drop pipe_ops = pipe_drop" "copy_poll pipe_ops = pipe_copy_poll"
  by (simp_all add: pipe_ops_def)

end
