(* ===== verification/Proxy_Schedule.thy ===== *)
theory Proxy_Schedule
  imports Proxy_Termination Streams "HOL-Library.AList"
begin

text \<open>
  The fakes of \<open>src/proxyharness.rs\<close> and the server running on them, as its unit tests run it: on one
  thread, each task as far as it gets, and the clock only moves when nothing else can. The scheduler
  picks steps of \<open>Proxy_System\<close>, with what \<open>accept\<close> and \<open>connect_backend\<close> return taken from the fakes'
  queues of commands and the end of a connection from the copying between its two streams.
\<close>

section \<open>Commands of the fakes\<close>

text \<open>\<open>AcceptCommand\<close>, with the number of the acknowledgement its sender waits for, and \<open>ConnectCommand\<close>.\<close>

type_synonym 'e accept_command = "(proxy_error + 'e \<times> socket_addr) \<times> nat"

type_synonym 'e connect_command = "proxy_error + 'e \<times> socket_addr"

text \<open>\<open>BindBehavior\<close>; the receiver of \<open>Bind\<close> is the port's queue in \<open>accept_queues\<close>.\<close>

datatype bind_behavior = Bind | BindFails proxy_error

text \<open>How far \<open>do_connection\<close> has come in a task: before \<open>connect_backend\<close>, copying, or over.\<close>

datatype 'e conn = Connecting | Copying 'e | Served

text \<open>
  The server, the receivers of the fakes, the acknowledgements sent, and the streams. A port without
  an entry in \<open>accept_queues\<close> has no receiver.
\<close>

record ('sem, 'tok, 'e, 'w) proxy_world =
  running :: "('sem, 'tok, 'e) sys"
  listening :: "u16 list"
  conns :: "'e conn list"
  accept_queues :: "u16 \<rightharpoonup> 'e accept_command list"
  connect_queues :: "u16 \<rightharpoonup> 'e connect_command list"
  acks :: "nat list"
  copy_size :: usize
  streams :: 'w

record ('sem, 'tok, 'e, 'w) runtime =
  semaphores :: "'sem semaphore_ops"
  tokens :: "'tok token_ops"
  stream_lib :: "('e, 'w) stream_ops"

text \<open>
  \<open>FakeListenerFactory::new\<close>: a behaviour for each port, and the channels of those that bind;
  \<open>None\<close> for the panic when a failure is scheduled on a port that is not configured.
\<close>

fun fake_behaviors ::
  "u16 list \<Rightarrow> (u16 \<times> proxy_error) list \<Rightarrow> (u16 \<rightharpoonup> bind_behavior) \<Rightarrow> (u16 \<rightharpoonup> 'e accept_command list)
   \<Rightarrow> (u16 \<times> proxy_error) list \<times> (u16 \<rightharpoonup> bind_behavior) \<times> (u16 \<rightharpoonup> 'e accept_command list)" where
  "fake_behaviors [] failures behaviors accept_tx = (failures, behaviors, accept_tx)"
| "fake_behaviors (port # rest) failures behaviors accept_tx =
     (case map_of failures port of
        Some e \<Rightarrow> fake_behaviors rest (AList.delete port failures) (behaviors(port \<mapsto> BindFails e)) accept_tx
      | None \<Rightarrow> fake_behaviors rest failures (behaviors(port \<mapsto> Bind)) (accept_tx(port \<mapsto> [])))"

definition fake_listener_factory_new ::
  "proxy_config \<Rightarrow> (u16 \<times> proxy_error) list
   \<Rightarrow> ((u16 \<rightharpoonup> bind_behavior) \<times> (u16 \<rightharpoonup> 'e accept_command list)) option" where
  "fake_listener_factory_new config failures =
     (case fake_behaviors (ports config) failures Map.empty Map.empty of
        (left, behaviors, accept_tx) \<Rightarrow>
          if left = [] then Some (behaviors, accept_tx) else None)"

text \<open>
  \<open>FakeListenerFactory::bind\<close>, over the behaviours that are left and whether it has panicked, which
  it does on a port with none.
\<close>

definition fake_bind ::
  "unit \<Rightarrow> socket_addr \<Rightarrow> (u16 \<rightharpoonup> bind_behavior) \<times> bool
   \<Rightarrow> (proxy_error + unit) \<times> (u16 \<rightharpoonup> bind_behavior) \<times> bool" where
  "fake_bind f addr w =
     (let (behaviors, panicked) = w; behaviors' = behaviors(sa_port addr := None) in
      case behaviors (sa_port addr) of
        Some Bind \<Rightarrow> (Ok (), behaviors', panicked)
      | Some (BindFails e) \<Rightarrow> (Err e, behaviors', panicked)
      | None \<Rightarrow> (Err (TaskCancellation ''panic''), behaviors', True))"

text \<open>\<open>FakeListener::accept\<close>: the next command, which is acknowledged; \<open>None\<close> while there is none.\<close>

definition fake_accept ::
  "u16 \<Rightarrow> ('sem, 'tok, 'e, 'w) proxy_world
   \<Rightarrow> (proxy_error + 'e \<times> socket_addr) option \<times> ('sem, 'tok, 'e, 'w) proxy_world" where
  "fake_accept p w =
     (case accept_queues w p of
        Some ((result, ack) # rest) \<Rightarrow>
          (Some result, w\<lparr>accept_queues := (accept_queues w)(p \<mapsto> rest), acks := ack # acks w\<rparr>)
      | _ \<Rightarrow> (None, w))"

text \<open>\<open>FakeLoadBalancer::new\<close>: an empty channel for each port.\<close>

definition fake_load_balancer_new :: "proxy_config \<Rightarrow> (u16 \<rightharpoonup> 'e connect_command list)" where
  "fake_load_balancer_new config = fold (\<lambda>port m. m(port \<mapsto> [])) (ports config) Map.empty"

text \<open>\<open>FakeLoadBalancer::connect_backend\<close>: the next command; \<open>None\<close> for a panic when there is none.\<close>

definition fake_connect_backend ::
  "u16 \<Rightarrow> ('sem, 'tok, 'e, 'w) proxy_world
   \<Rightarrow> (proxy_error + 'e \<times> socket_addr) option \<times> ('sem, 'tok, 'e, 'w) proxy_world" where
  "fake_connect_backend p w =
     (case connect_queues w p of
        Some (r # rest) \<Rightarrow> (Some r, w\<lparr>connect_queues := (connect_queues w)(p \<mapsto> rest)\<rparr>)
      | _ \<Rightarrow> (None, w))"

section \<open>What a step does to the streams\<close>

definition drop_stream ::
  "('sem, 'tok, 'e, 'w) runtime \<Rightarrow> 'e \<Rightarrow> ('sem, 'tok, 'e, 'w) proxy_world
   \<Rightarrow> ('sem, 'tok, 'e, 'w) proxy_world" where
  "drop_stream R e w = w\<lparr>streams := stream_drop (stream_lib R) e (streams w)\<rparr>"

fun drop_command ::
  "('sem, 'tok, 'e, 'w) runtime \<Rightarrow> 'e accept_command \<Rightarrow> ('sem, 'tok, 'e, 'w) proxy_world
   \<Rightarrow> ('sem, 'tok, 'e, 'w) proxy_world" where
  "drop_command R (Ok (e, addr), ack) w = drop_stream R e w"
| "drop_command R (Err x, ack) w = w"

text \<open>\<open>drop(listener)\<close>: the receiver goes, with the commands that are left in it.\<close>

definition drop_listener ::
  "('sem, 'tok, 'e, 'w) runtime \<Rightarrow> u16 \<Rightarrow> ('sem, 'tok, 'e, 'w) proxy_world
   \<Rightarrow> ('sem, 'tok, 'e, 'w) proxy_world" where
  "drop_listener R p w =
     fold (drop_command R) (case accept_queues w p of Some q \<Rightarrow> q | None \<Rightarrow> [])
       (w\<lparr>accept_queues := (accept_queues w)(p := None)\<rparr>)"

text \<open>The end of \<open>do_connection\<close>, or of its task: both streams are dropped.\<close>

definition end_conn ::
  "('sem, 'tok, 'e, 'w) runtime \<Rightarrow> nat \<Rightarrow> ('sem, 'tok, 'e, 'w) proxy_world
   \<Rightarrow> ('sem, 'tok, 'e, 'w) proxy_world" where
  "end_conn R i w =
     (let w1 = drop_stream R (task_sock (conn_tasks (running w) ! i)) w in
      case conns w ! i of
        Served \<Rightarrow> w
      | Connecting \<Rightarrow> w1\<lparr>conns := (conns w)[i := Served]\<rparr>
      | Copying b \<Rightarrow> drop_stream R b (w1\<lparr>conns := (conns w)[i := Served]\<rparr>))"

text \<open>One poll of the copying of each connection.\<close>

definition pump_one ::
  "('sem, 'tok, 'e, 'w) runtime \<Rightarrow> nat \<Rightarrow> ('sem, 'tok, 'e, 'w) proxy_world
   \<Rightarrow> ('sem, 'tok, 'e, 'w) proxy_world" where
  "pump_one R i w =
     (case conns w ! i of
        Copying b \<Rightarrow>
          (case copy_poll (stream_lib R) (copy_size w) (task_sock (conn_tasks (running w) ! i)) b (streams w) of
             (None, st) \<Rightarrow> w\<lparr>streams := st\<rparr>
           | (Some r, st) \<Rightarrow> end_conn R i (w\<lparr>streams := st\<rparr>))
      | _ \<Rightarrow> w)"

definition pump ::
  "('sem, 'tok, 'e, 'w) runtime \<Rightarrow> ('sem, 'tok, 'e, 'w) proxy_world
   \<Rightarrow> ('sem, 'tok, 'e, 'w) proxy_world" where
  "pump R w = fold (pump_one R) [0..<length (conns w)] w"

section \<open>The next step\<close>

datatype action =
    AReap u16 nat | AStartAccept u16 | AAccept u16 | AQueue u16 | ACancel u16 | ADrained u16
  | ADeadline u16 | AJoin u16 | AReturn
  | APoll nat | ALeaveQueue nat | AConnect nat | AFinish nat | ALeave nat | AAbort nat

definition task_action :: "('sem, 'tok, 'e, 'w) proxy_world \<Rightarrow> nat \<Rightarrow> action option" where
  "task_action w i =
     (let t = conn_tasks (running w) ! i in
      case phase t of
        Gone \<Rightarrow> None
      | Leaving \<Rightarrow> Some (ALeave i)
      | Unpolled \<Rightarrow> Some (if aborting t then AAbort i else APoll i)
      | Waiting \<Rightarrow> (if aborting t then Some (AAbort i) else None)
      | Granted \<Rightarrow> Some (if aborting t then AAbort i else ALeaveQueue i)
      | Serving \<Rightarrow>
          (if aborting t then Some (AAbort i)
           else case conns w ! i of
                  Connecting \<Rightarrow> Some (AConnect i) | Copying b \<Rightarrow> None | Served \<Rightarrow> Some (AFinish i)))"

definition joinable_task :: "('sem, 'tok, 'e) sys \<Rightarrow> u16 \<Rightarrow> nat option" where
  "joinable_task s p = find (\<lambda>i. joinable p (conn_tasks s ! i)) [0..<length (conn_tasks s)]"

definition listener_action ::
  "('sem, 'tok, 'e, 'w) runtime \<Rightarrow> ('sem, 'tok, 'e, 'w) proxy_world \<Rightarrow> u16 \<Rightarrow> action option" where
  "listener_action R w p =
     (let s = running w in
      case listeners s p of
        None \<Rightarrow> None
      | Some l \<Rightarrow>
          (case l of
             Reaping \<Rightarrow>
               (if token_cancelled (tokens R) (token s) then Some (ACancel p)
                else case joinable_task s p of
                       Some i \<Rightarrow> Some (AReap p i) | None \<Rightarrow> Some (AStartAccept p))
           | Accepting \<Rightarrow>
               (if token_cancelled (tokens R) (token s) then Some (ACancel p)
                else case fst (fake_accept p w) of Some res \<Rightarrow> Some (AAccept p) | None \<Rightarrow> None)
           | Queueing sock \<Rightarrow> Some (AQueue p)
           | Draining r d \<Rightarrow>
               (case joinable_task s p of
                  Some i \<Rightarrow> Some (AReap p i)
                | None \<Rightarrow>
                    (if list_all (\<lambda>t. task_port t = p \<longrightarrow> joined t) (conn_tasks s) then Some (ADrained p)
                     else if d \<le> clock s then Some (ADeadline p) else None))
           | Ended x \<Rightarrow> (case main_phase s of Joining fe \<Rightarrow> Some (AJoin p) | Returned r \<Rightarrow> None)
           | Retired x \<Rightarrow> None))"

fun is_retired :: "'e listener option \<Rightarrow> bool" where
  "is_retired (Some (Retired x)) = True"
| "is_retired _ = False"

definition main_action :: "('sem, 'tok, 'e, 'w) proxy_world \<Rightarrow> action option" where
  "main_action w =
     (case main_phase (running w) of
        Returned r \<Rightarrow> None
      | Joining fe \<Rightarrow>
          (if list_all (\<lambda>p. is_retired (listeners (running w) p)) (listening w) then Some AReturn else None))"

fun first_some :: "('a \<Rightarrow> 'b option) \<Rightarrow> 'a list \<Rightarrow> 'b option" where
  "first_some f [] = None"
| "first_some f (x # xs) = (case f x of Some y \<Rightarrow> Some y | None \<Rightarrow> first_some f xs)"

definition next_action ::
  "('sem, 'tok, 'e, 'w) runtime \<Rightarrow> ('sem, 'tok, 'e, 'w) proxy_world \<Rightarrow> action option" where
  "next_action R w =
     (case first_some (task_action w) [0..<length (conn_tasks (running w))] of
        Some a \<Rightarrow> Some a
      | None \<Rightarrow>
          (case first_some (listener_action R w) (listening w) of
             Some a \<Rightarrow> Some a
           | None \<Rightarrow> main_action w))"

definition spawn_conns :: "('sem, 'tok, 'e, 'w) proxy_world \<Rightarrow> ('sem, 'tok, 'e, 'w) proxy_world" where
  "spawn_conns w =
     w\<lparr>conns := conns w @ replicate (length (conn_tasks (running w)) - length (conns w)) Connecting\<rparr>"

fun perform ::
  "('sem, 'tok, 'e, 'w) runtime \<Rightarrow> action \<Rightarrow> ('sem, 'tok, 'e, 'w) proxy_world
   \<Rightarrow> ('sem, 'tok, 'e, 'w) proxy_world" where
  "perform R (AReap p i) w = w\<lparr>running := join_task i (running w)\<rparr>"
| "perform R (AStartAccept p) w = w\<lparr>running := set_listener p Accepting (running w)\<rparr>"
| "perform R (AAccept p) w =
     (case fake_accept p w of
        (None, w1) \<Rightarrow> w1
      | (Some res, w1) \<Rightarrow>
          (let w2 = spawn_conns (w1\<lparr>running := on_accept (semaphores R) (tokens R) p res (running w)\<rparr>) in
           case listeners (running w2) p of Some (Draining r d) \<Rightarrow> drop_listener R p w2 | _ \<Rightarrow> w2))"
| "perform R (AQueue p) w =
     (case listeners (running w) p of
        Some (Queueing sock) \<Rightarrow>
          (let s = on_queueing (semaphores R) p sock (running w); w1 = spawn_conns (w\<lparr>running := s\<rparr>) in
           if length (conn_tasks s) = length (conn_tasks (running w)) then drop_stream R sock w1 else w1)
      | _ \<Rightarrow> w)"
| "perform R (ACancel p) w =
     drop_listener R p
       (w\<lparr>running := set_listener p (Draining (Ok ()) (clock (running w) + DRAIN_DEADLINE)) (running w)\<rparr>)"
| "perform R (ADrained p) w =
     (case listeners (running w) p of
        Some (Draining r d) \<Rightarrow> w\<lparr>running := set_listener p (Ended (Exited r)) (running w)\<rparr>
      | _ \<Rightarrow> w)"
| "perform R (ADeadline p) w =
     (case listeners (running w) p of
        Some (Draining r d) \<Rightarrow>
          w\<lparr>running := set_listener p (Ended (Exited r)) (abort_tasks p (running w))\<rparr>
      | _ \<Rightarrow> w)"
| "perform R (AJoin p) w =
     (case (main_phase (running w), listeners (running w) p) of
        (Joining fe, Some (Ended x)) \<Rightarrow>
          (case on_listener_joined (tokens R) x (token (running w), fe) of
             (tok, fe') \<Rightarrow>
               w\<lparr>running := set_listener p (Retired x)
                   ((running w)\<lparr>token := tok, main_phase := Joining fe'\<rparr>)\<rparr>)
      | _ \<Rightarrow> w)"
| "perform R AReturn w =
     (case main_phase (running w) of
        Joining fe \<Rightarrow> w\<lparr>running := (running w)\<lparr>main_phase := Returned (run_result fe)\<rparr>\<rparr>
      | Returned r \<Rightarrow> w)"
| "perform R (APoll i) w =
     (let w1 = w\<lparr>running := on_poll (semaphores R) i (running w)\<rparr> in
      if phase (conn_tasks (running w1) ! i) = Leaving then end_conn R i w1 else w1)"
| "perform R (ALeaveQueue i) w =
     w\<lparr>running := release_queue (semaphores R) (set_phase i Serving (running w))\<rparr>"
| "perform R (AConnect i) w =
     (case fake_connect_backend (task_port (conn_tasks (running w) ! i)) w of
        (Some (Ok (b, addr)), w1) \<Rightarrow> w1\<lparr>conns := (conns w1)[i := Copying b]\<rparr>
      | (_, w1) \<Rightarrow> end_conn R i w1)"
| "perform R (AFinish i) w =
     w\<lparr>running := release_open (semaphores R) (set_phase i Gone (running w))\<rparr>"
| "perform R (ALeave i) w =
     w\<lparr>running := release_queue (semaphores R) (set_phase i Gone (running w))\<rparr>"
| "perform R (AAbort i) w = end_conn R i (w\<lparr>running := on_abort (semaphores R) i (running w)\<rparr>)"

text \<open>Run until nothing is left to do, or the fuel is used up.\<close>

fun settle ::
  "('sem, 'tok, 'e, 'w) runtime \<Rightarrow> nat \<Rightarrow> ('sem, 'tok, 'e, 'w) proxy_world
   \<Rightarrow> ('sem, 'tok, 'e, 'w) proxy_world" where
  "settle R 0 w = w"
| "settle R (Suc n) w =
     (let w1 = pump R w in
      case next_action R w1 of None \<Rightarrow> w1 | Some a \<Rightarrow> settle R n (perform R a w1))"

text \<open>The fuel: what the commands, connections and listeners there are can still do.\<close>

fun listener_rank :: "'e listener \<Rightarrow> nat" where
  "listener_rank Reaping = 4"
| "listener_rank Accepting = 3"
| "listener_rank (Queueing sock) = 12"
| "listener_rank l = listener_work l"

definition port_work :: "('sem, 'tok, 'e, 'w) proxy_world \<Rightarrow> u16 \<Rightarrow> nat" where
  "port_work w p =
     (case listeners (running w) p of Some l \<Rightarrow> listener_rank l | None \<Rightarrow> 0)
     + 10 * (case accept_queues w p of Some q \<Rightarrow> length q | None \<Rightarrow> 0)"

definition world_work :: "('sem, 'tok, 'e, 'w) proxy_world \<Rightarrow> nat" where
  "world_work w =
     tasks_work (running w) + count_if (\<lambda>c. c = Connecting) (conns w)
     + sum_list (map (port_work w) (listening w)) + main_work (main_phase (running w))"

definition settled ::
  "('sem, 'tok, 'e, 'w) runtime \<Rightarrow> ('sem, 'tok, 'e, 'w) proxy_world
   \<Rightarrow> ('sem, 'tok, 'e, 'w) proxy_world" where
  "settled R w = settle R (Suc (world_work w)) w"

end
