(* ===== verification/Proxy_Harness.thy ===== *)
theory Proxy_Harness
  imports Proxy_Schedule "HOL-Library.Monad_Syntax"
begin

text \<open>
  \<open>src/proxyharness.rs\<close> and the unit tests of \<open>src/proxy.rs\<close>: the harness that runs the server on
  fakes, its calls, and each test as a computation on the model. A call that panics, as an assertion
  that fails does, or that waits for ever gives \<open>None\<close>.
\<close>

section \<open>Waiting\<close>

text \<open>
  A future of the test is polled when the server has settled. While it is not ready, the paused
  clock goes to the next timer: the deadline of the test's own \<open>timeout\<close>, which ends the wait, or of
  a listener that drains.
\<close>

definition timers :: "('sem, 'tok, 'e, 'w) proxy_world \<Rightarrow> instant list" where
  "timers w =
     concat (map (\<lambda>p. case listeners (running w) p of
                        Some (Draining r d) \<Rightarrow> (if clock (running w) < d then [d] else [])
                      | _ \<Rightarrow> []) (listening w))"

fun earliest :: "instant option \<Rightarrow> instant list \<Rightarrow> instant option" where
  "earliest x [] = x"
| "earliest None (d # ds) = earliest (Some d) ds"
| "earliest (Some c) (d # ds) = earliest (Some (min c d)) ds"

definition advance_to :: "instant \<Rightarrow> ('sem, 'tok, 'e, 'w) proxy_world \<Rightarrow> ('sem, 'tok, 'e, 'w) proxy_world" where
  "advance_to d w = w\<lparr>running := (running w)\<lparr>clock := clock (running w) + (d - clock (running w))\<rparr>\<rparr>"

fun await_loop ::
  "('sem, 'tok, 'e, 'w) runtime \<Rightarrow> nat \<Rightarrow> instant option
   \<Rightarrow> (('sem, 'tok, 'e, 'w) proxy_world \<Rightarrow> 'a option \<times> ('sem, 'tok, 'e, 'w) proxy_world)
   \<Rightarrow> ('sem, 'tok, 'e, 'w) proxy_world \<Rightarrow> 'a option \<times> ('sem, 'tok, 'e, 'w) proxy_world" where
  "await_loop R n deadline poll w =
     (case poll (settled R w) of
        (Some x, w1) \<Rightarrow> (Some x, w1)
      | (None, w1) \<Rightarrow>
          (case (n, earliest deadline (timers w1)) of
             (Suc m, Some d) \<Rightarrow>
               (if deadline = Some d then (None, advance_to d w1)
                else await_loop R m deadline poll (advance_to d w1))
           | _ \<Rightarrow> (None, w1)))"

declare await_loop.simps [simp del]

text \<open>Each turn but the last is the deadline of a listener, which then ends, so one turn per listener is enough.\<close>

definition await ::
  "('sem, 'tok, 'e, 'w) runtime \<Rightarrow> duration option
   \<Rightarrow> (('sem, 'tok, 'e, 'w) proxy_world \<Rightarrow> 'a option \<times> ('sem, 'tok, 'e, 'w) proxy_world)
   \<Rightarrow> ('sem, 'tok, 'e, 'w) proxy_world \<Rightarrow> 'a option \<times> ('sem, 'tok, 'e, 'w) proxy_world" where
  "await R wait poll w =
     await_loop R (Suc (length (listening w)))
       (map_option (\<lambda>d. clock (running w) + d) wait) poll w"

definition on_streams ::
  "('w \<Rightarrow> 'a \<times> 'w) \<Rightarrow> ('sem, 'tok, 'e, 'w) proxy_world \<Rightarrow> 'a \<times> ('sem, 'tok, 'e, 'w) proxy_world" where
  "on_streams f w = (case f (streams w) of (r, st) \<Rightarrow> (r, w\<lparr>streams := st\<rparr>))"

section \<open>The harness\<close>

record ('sem, 'tok, 'e, 'w) proxy_harness =
  world :: "('sem, 'tok, 'e, 'w) proxy_world"
  duplex_buf_size :: nat
  client_ctr :: nat
  backend_ctr :: nat
  ack_ctr :: nat

record harness_builder =
  builder_config :: proxy_config
  builder_max_connections :: usize
  builder_max_queue :: usize
  builder_duplex_buf_size :: nat
  builder_bind_failures :: "(u16 \<times> proxy_error) list"

definition harness_builder_of :: "proxy_config \<Rightarrow> harness_builder" where
  "harness_builder_of config =
     \<lparr>builder_config = config, builder_max_connections = 10, builder_max_queue = 10,
      builder_duplex_buf_size = 1024 * 64, builder_bind_failures = []\<rparr>"

definition builder_bind_fail :: "u16 \<Rightarrow> proxy_error \<Rightarrow> harness_builder \<Rightarrow> harness_builder" where
  "builder_bind_fail port e b = b\<lparr>builder_bind_failures := AList.update port e (builder_bind_failures b)\<rparr>"

definition with_max_connections :: "usize \<Rightarrow> harness_builder \<Rightarrow> harness_builder" where
  "with_max_connections n b = b\<lparr>builder_max_connections := n\<rparr>"

definition with_max_queue :: "usize \<Rightarrow> harness_builder \<Rightarrow> harness_builder" where
  "with_max_queue n b = b\<lparr>builder_max_queue := n\<rparr>"

text \<open>
  The task of \<open>proxy.run()\<close> as far as its join loop. A server that fails before that has returned,
  and its receivers are gone; a panic of a fake is \<open>None\<close>.
\<close>

definition server_world ::
  "instant \<Rightarrow> 'w \<Rightarrow> proxy_config \<Rightarrow> (unit, unit, 'sem, 'tok) proxy_server \<Rightarrow> (u16 \<rightharpoonup> bind_behavior)
   \<Rightarrow> (u16 \<rightharpoonup> 'e accept_command list) \<Rightarrow> ('sem, 'tok, 'e, 'w) proxy_world option" where
  "server_world now st config srv behaviors accept_commands =
     (case proxy_run fake_bind srv now (behaviors, False) of
        (r, _, True) \<Rightarrow> None
      | (Err e, _, False) \<Rightarrow>
          Some \<lparr>running = (sys_start srv [] now)\<lparr>main_phase := Returned (Err e)\<rparr>, listening = [],
                conns = [], accept_queues = Map.empty, connect_queues = Map.empty, acks = [],
                copy_size = copy_buf_size srv, streams = st\<rparr>
      | (Ok s, _, False) \<Rightarrow>
          Some \<lparr>running = s, listening = server_ports srv, conns = [],
                accept_queues = accept_commands, connect_queues = fake_load_balancer_new config,
                acks = [], copy_size = copy_buf_size srv, streams = st\<rparr>)"

text \<open>\<open>ProxyHarnessBuilder::start\<close>.\<close>

definition harness_start ::
  "('sem, 'tok, 'e, 'w) runtime \<Rightarrow> instant \<Rightarrow> 'w \<Rightarrow> harness_builder
   \<Rightarrow> ('sem, 'tok, 'e, 'w) proxy_harness option" where
  "harness_start R now st b = do {
     (behaviors, accept_commands) \<leftarrow>
       fake_listener_factory_new (builder_config b) (builder_bind_failures b);
     srv \<leftarrow> proxy_server_new (semaphores R) () () (builder_config b) (token_new (tokens R))
              (builder_max_connections b) (builder_max_queue b) (V6 (replicate 8 0)) (1024 * 8);
     w \<leftarrow> server_world now st (builder_config b) srv behaviors accept_commands;
     Some \<lparr>world = w, duplex_buf_size = builder_duplex_buf_size b, client_ctr = 0, backend_ctr = 0,
           ack_ctr = 0\<rparr>
   }"

text \<open>\<open>ProxyHarness::send_command\<close>, which panics when there is no channel or nobody to receive.\<close>

definition send_accept ::
  "u16 \<Rightarrow> 'e accept_command \<Rightarrow> ('sem, 'tok, 'e, 'w) proxy_harness
   \<Rightarrow> ('sem, 'tok, 'e, 'w) proxy_harness option" where
  "send_accept port command h =
     (case accept_queues (world h) port of
        None \<Rightarrow> None
      | Some q \<Rightarrow>
          Some (h\<lparr>world := (world h)\<lparr>accept_queues := (accept_queues (world h))(port \<mapsto> q @ [command])\<rparr>\<rparr>))"

definition send_connect ::
  "u16 \<Rightarrow> 'e connect_command \<Rightarrow> ('sem, 'tok, 'e, 'w) proxy_harness
   \<Rightarrow> ('sem, 'tok, 'e, 'w) proxy_harness option" where
  "send_connect port command h =
     (case connect_queues (world h) port of
        None \<Rightarrow> None
      | Some q \<Rightarrow>
          Some (h\<lparr>world := (world h)\<lparr>connect_queues := (connect_queues (world h))(port \<mapsto> q @ [command])\<rparr>\<rparr>))"

definition next_client_sock ::
  "('sem, 'tok, 'e, 'w) proxy_harness \<Rightarrow> (socket_addr \<times> ('sem, 'tok, 'e, 'w) proxy_harness) option" where
  "next_client_sock h = do {
     sock \<leftarrow> parse_socket_addr (''127.0.0.1:'' @ show_nat (40000 + client_ctr h));
     Some (sock, h\<lparr>client_ctr := client_ctr h + 1\<rparr>)
   }"

definition next_backend_sock ::
  "('sem, 'tok, 'e, 'w) proxy_harness \<Rightarrow> (socket_addr \<times> ('sem, 'tok, 'e, 'w) proxy_harness) option" where
  "next_backend_sock h = do {
     sock \<leftarrow> parse_socket_addr (''127.0.0.1:'' @ show_nat (9000 + backend_ctr h));
     Some (sock, h\<lparr>backend_ctr := backend_ctr h + 1\<rparr>)
   }"

text \<open>\<open>duplex\<close> and \<open>oneshot::channel\<close>.\<close>

definition new_duplex ::
  "('sem, 'tok, 'e, 'w) runtime \<Rightarrow> ('sem, 'tok, 'e, 'w) proxy_harness
   \<Rightarrow> ('e \<times> 'e) \<times> ('sem, 'tok, 'e, 'w) proxy_harness" where
  "new_duplex R h =
     (case on_streams (duplex (stream_lib R) (duplex_buf_size h)) (world h) of
        (ends, w) \<Rightarrow> (ends, h\<lparr>world := w\<rparr>))"

definition new_ack :: "('sem, 'tok, 'e, 'w) proxy_harness \<Rightarrow> nat \<times> ('sem, 'tok, 'e, 'w) proxy_harness" where
  "new_ack h = (ack_ctr h, h\<lparr>ack_ctr := Suc (ack_ctr h)\<rparr>)"

text \<open>\<open>await\<close> in a test, whose failure, or end without a result, is a panic.\<close>

definition await_some ::
  "('sem, 'tok, 'e, 'w) runtime \<Rightarrow> duration option
   \<Rightarrow> (('sem, 'tok, 'e, 'w) proxy_world \<Rightarrow> 'a option \<times> ('sem, 'tok, 'e, 'w) proxy_world)
   \<Rightarrow> ('sem, 'tok, 'e, 'w) proxy_harness \<Rightarrow> ('a \<times> ('sem, 'tok, 'e, 'w) proxy_harness) option" where
  "await_some R wait poll h =
     (case await R wait poll (world h) of
        (None, w) \<Rightarrow> None
      | (Some x, w) \<Rightarrow> Some (x, h\<lparr>world := w\<rparr>))"

definition await_ack ::
  "('sem, 'tok, 'e, 'w) runtime \<Rightarrow> nat \<Rightarrow> ('sem, 'tok, 'e, 'w) proxy_harness
   \<Rightarrow> ('sem, 'tok, 'e, 'w) proxy_harness option" where
  "await_ack R ack h = do {
     (u, h) \<leftarrow> await_some R (Some (from_secs 5)) (\<lambda>w. (if ack \<in> set (acks w) then Some () else None, w)) h;
     Some h
   }"

definition proxied ::
  "('sem, 'tok, 'e, 'w) runtime \<Rightarrow> u16 \<Rightarrow> ('sem, 'tok, 'e, 'w) proxy_harness
   \<Rightarrow> (('e \<times> 'e) \<times> ('sem, 'tok, 'e, 'w) proxy_harness) option" where
  "proxied R port h = do {
     let ((test_side_client, proxy_side_client), h) = new_duplex R h;
     let ((test_side_backend, proxy_side_backend), h) = new_duplex R h;
     let (ack, h) = new_ack h;
     (backend_sock, h) \<leftarrow> next_backend_sock h;
     h \<leftarrow> send_connect port (Ok (proxy_side_backend, backend_sock)) h;
     (client_sock, h) \<leftarrow> next_client_sock h;
     h \<leftarrow> send_accept port (Ok (proxy_side_client, client_sock), ack) h;
     h \<leftarrow> await_ack R ack h;
     Some ((test_side_client, test_side_backend), h)
   }"

definition accept_fail ::
  "('sem, 'tok, 'e, 'w) runtime \<Rightarrow> u16 \<Rightarrow> proxy_error \<Rightarrow> ('sem, 'tok, 'e, 'w) proxy_harness
   \<Rightarrow> ('sem, 'tok, 'e, 'w) proxy_harness option" where
  "accept_fail R port e h = do {
     let (ack, h) = new_ack h;
     h \<leftarrow> send_accept port (Err e, ack) h;
     await_ack R ack h
   }"

definition backend_connect_fail ::
  "('sem, 'tok, 'e, 'w) runtime \<Rightarrow> u16 \<Rightarrow> proxy_error \<Rightarrow> ('sem, 'tok, 'e, 'w) proxy_harness
   \<Rightarrow> ('e \<times> ('sem, 'tok, 'e, 'w) proxy_harness) option" where
  "backend_connect_fail R port e h = do {
     let ((test_side_client, proxy_side_client), h) = new_duplex R h;
     (client_sock, h) \<leftarrow> next_client_sock h;
     let (ack, h) = new_ack h;
     h \<leftarrow> send_connect port (Err e) h;
     h \<leftarrow> send_accept port (Ok (proxy_side_client, client_sock), ack) h;
     h \<leftarrow> await_ack R ack h;
     Some (test_side_client, h)
   }"

definition no_backend ::
  "('sem, 'tok, 'e, 'w) runtime \<Rightarrow> u16 \<Rightarrow> ('sem, 'tok, 'e, 'w) proxy_harness
   \<Rightarrow> ('e \<times> ('sem, 'tok, 'e, 'w) proxy_harness) option" where
  "no_backend R port h = do {
     let ((test_side_client, proxy_side_client), h) = new_duplex R h;
     (client_sock, h) \<leftarrow> next_client_sock h;
     let (ack, h) = new_ack h;
     h \<leftarrow> send_accept port (Ok (proxy_side_client, client_sock), ack) h;
     h \<leftarrow> await_ack R ack h;
     Some (test_side_client, h)
   }"

text \<open>\<open>join\<close>; the server's own task does not panic.\<close>

definition harness_join ::
  "('sem, 'tok, 'e, 'w) runtime \<Rightarrow> ('sem, 'tok, 'e, 'w) proxy_harness
   \<Rightarrow> ((proxy_error + unit) \<times> ('sem, 'tok, 'e, 'w) proxy_harness) option" where
  "harness_join R h =
     await_some R None
       (\<lambda>w. (case main_phase (running w) of Returned r \<Rightarrow> Some r | Joining fe \<Rightarrow> None, w)) h"

definition harness_cancel ::
  "('sem, 'tok, 'e, 'w) runtime \<Rightarrow> ('sem, 'tok, 'e, 'w) proxy_harness
   \<Rightarrow> ('sem, 'tok, 'e, 'w) proxy_harness" where
  "harness_cancel R h =
     h\<lparr>world := (world h)\<lparr>running :=
        (running (world h))\<lparr>token := token_cancel (tokens R) (token (running (world h)))\<rparr>\<rparr>\<rparr>"

definition harness_shutdown ::
  "('sem, 'tok, 'e, 'w) runtime \<Rightarrow> ('sem, 'tok, 'e, 'w) proxy_harness
   \<Rightarrow> ((proxy_error + unit) \<times> ('sem, 'tok, 'e, 'w) proxy_harness) option" where
  "harness_shutdown R h = harness_join R (harness_cancel R h)"

definition shutdown_assert_ok ::
  "('sem, 'tok, 'e, 'w) runtime \<Rightarrow> ('sem, 'tok, 'e, 'w) proxy_harness
   \<Rightarrow> ('sem, 'tok, 'e, 'w) proxy_harness option" where
  "shutdown_assert_ok R h = do {
     (r, h) \<leftarrow> harness_shutdown R h;
     (case r of Ok u \<Rightarrow> Some h | Err e \<Rightarrow> None)
   }"

end
