(* ===== verification/Schedule_Properties.thy ===== *)
theory Schedule_Properties
  imports Proxy_Harness
begin

text \<open>
  The harness runs the server: each step its scheduler takes is a step of \<open>Proxy_System\<close>, so a state
  the harness gets to is one the server can reach, and the scheduler leaves nothing undone that can
  be done before the clock moves.
\<close>

section \<open>What the streams do not touch\<close>

lemma drop_stream_frame [simp]:
  "running (drop_stream R e w) = running w" "listening (drop_stream R e w) = listening w"
  "conns (drop_stream R e w) = conns w" "accept_queues (drop_stream R e w) = accept_queues w"
  by (simp_all add: drop_stream_def)

lemma fold_frame:
  assumes "\<And>x w. f (g x w) = f w"
  shows "f (fold g xs w) = f w"
  by (induction xs arbitrary: w) (simp_all add: assms)

lemma drop_listener_frame [simp]:
  "running (drop_listener R p w) = running w" "listening (drop_listener R p w) = listening w"
  "conns (drop_listener R p w) = conns w"
  "accept_queues (drop_listener R p w) = (accept_queues w)(p := None)"
proof -
  have "running (drop_command R x w) = running w" "listening (drop_command R x w) = listening w"
    "conns (drop_command R x w) = conns w" "accept_queues (drop_command R x w) = accept_queues w" for x w
    by (cases "(R, x, w)" rule: drop_command.cases; simp)+
  note frame = this
  show "running (drop_listener R p w) = running w"
    using fold_frame [of running "drop_command R", OF frame(1)] by (simp add: drop_listener_def)
  show "listening (drop_listener R p w) = listening w"
    using fold_frame [of listening "drop_command R", OF frame(2)] by (simp add: drop_listener_def)
  show "conns (drop_listener R p w) = conns w"
    using fold_frame [of conns "drop_command R", OF frame(3)] by (simp add: drop_listener_def)
  show "accept_queues (drop_listener R p w) = (accept_queues w)(p := None)"
    using fold_frame [of accept_queues "drop_command R", OF frame(4)] by (simp add: drop_listener_def)
qed

lemma end_conn_frame [simp]:
  "running (end_conn R i w) = running w" "listening (end_conn R i w) = listening w"
  "length (conns (end_conn R i w)) = length (conns w)" "accept_queues (end_conn R i w) = accept_queues w"
  by (simp_all add: end_conn_def Let_def split: conn.split)

lemma pump_one_frame [simp]:
  "running (pump_one R i w) = running w" "listening (pump_one R i w) = listening w"
  "length (conns (pump_one R i w)) = length (conns w)" "accept_queues (pump_one R i w) = accept_queues w"
  by (simp_all add: pump_one_def split: conn.split prod.split option.split)

lemma pump_frame [simp]:
  "running (pump R w) = running w" "listening (pump R w) = listening w"
  "length (conns (pump R w)) = length (conns w)" "accept_queues (pump R w) = accept_queues w"
proof -
  show "running (pump R w) = running w" unfolding pump_def by (rule fold_frame) simp
  show "listening (pump R w) = listening w" unfolding pump_def by (rule fold_frame) simp
  show "length (conns (pump R w)) = length (conns w)"
    using fold_frame [of "\<lambda>w. length (conns w)" "pump_one R" "[0..<length (conns w)]" w]
    by (simp add: pump_def)
  show "accept_queues (pump R w) = accept_queues w" unfolding pump_def by (rule fold_frame) simp
qed

lemma fake_accept_frame:
  assumes "fake_accept p w = (r, w1)"
  shows "running w1 = running w" "listening w1 = listening w" "conns w1 = conns w"
  using assms by (auto simp: fake_accept_def split: option.splits list.splits)

lemma fake_connect_frame:
  assumes "fake_connect_backend p w = (r, w1)"
  shows "running w1 = running w" "listening w1 = listening w" "conns w1 = conns w"
    "accept_queues w1 = accept_queues w"
  using assms by (auto simp: fake_connect_backend_def split: option.splits list.splits)

lemma spawn_conns_frame [simp]:
  "running (spawn_conns w) = running w" "listening (spawn_conns w) = listening w"
  "length (conns w) \<le> length (conn_tasks (running w)) \<Longrightarrow>
     length (conns (spawn_conns w)) = length (conn_tasks (running w))"
  "accept_queues (spawn_conns w) = accept_queues w"
  by (simp_all add: spawn_conns_def)

section \<open>Every scheduled step is a step of the server\<close>

abbreviation world_step ::
  "('sem, 'tok, 'e, 'w) runtime \<Rightarrow> ('sem, 'tok, 'e, 'w) proxy_world
   \<Rightarrow> ('sem, 'tok, 'e, 'w) proxy_world \<Rightarrow> bool" where
  "world_step R w v \<equiv> running v = running w \<or> sys_step (semaphores R) (tokens R) (running w) (running v)"

lemma task_action_step:
  assumes "i < length (conn_tasks (running w))" "task_action w i = Some a"
  shows "world_step R w (perform R a w)"
proof (cases "aborting (conn_tasks (running w) ! i)")
  case True
  show ?thesis
    using assms True sys_step.abort [of i "running w" "semaphores R" "tokens R"]
      sys_step.leave [of i "running w" "semaphores R" "tokens R"]
    by (cases "phase (conn_tasks (running w) ! i)") (auto simp: task_action_def Let_def)
next
  case False
  show ?thesis
  proof (cases "phase (conn_tasks (running w) ! i)")
    case Unpolled
    with assms False sys_step.poll [of i "running w" "semaphores R" "tokens R"] show ?thesis
      by (auto simp: task_action_def Let_def split: if_splits)
  next
    case Granted
    with assms False sys_step.leave_queue [of i "running w" "semaphores R" "tokens R"] show ?thesis
      by (auto simp: task_action_def Let_def)
  next
    case Serving
    with assms False sys_step.finish [of i "running w" "semaphores R" "tokens R"] show ?thesis
      by (auto simp: task_action_def Let_def fake_connect_frame
          split: conn.splits prod.splits option.splits sum.splits dest!: fake_connect_frame(1))
  next
    case Leaving
    with assms False sys_step.leave [of i "running w" "semaphores R" "tokens R"] show ?thesis
      by (auto simp: task_action_def Let_def)
  qed (use assms False in \<open>simp_all add: task_action_def Let_def\<close>)
qed

lemma joinable_task_SomeD:
  assumes "joinable_task s p = Some i"
  shows "i < length (conn_tasks s)" "joinable p (conn_tasks s ! i)"
  using assms by (auto simp: joinable_task_def find_Some_iff)

lemma joinable_task_NoneD:
  assumes "joinable_task s p = None"
  shows "\<forall>t \<in> set (conn_tasks s). \<not> joinable p t"
  using assms by (auto simp: joinable_task_def find_None_iff in_set_conv_nth)

lemma listener_action_step:
  assumes "listener_action R w p = Some a"
  shows "world_step R w (perform R a w)"
proof -
  let ?s = "running w" and ?S = "semaphores R" and ?T = "tokens R"
  obtain l where l: "listeners ?s p = Some l"
    using assms by (auto simp: listener_action_def Let_def split: option.splits)
  show ?thesis
  proof (cases l)
    case Reaping
    show ?thesis
    proof (cases "token_cancelled ?T (token ?s)")
      case True
      with assms l Reaping sys_step.cancelled [OF l _, of ?T ?S] show ?thesis
        by (auto simp: listener_action_def)
    next
      case False
      show ?thesis
      proof (cases "joinable_task ?s p")
        case None
        with assms l Reaping False joinable_task_NoneD [OF None] sys_step.start_accept [of ?s p ?S ?T]
        show ?thesis by (auto simp: listener_action_def)
      next
        case (Some i)
        with assms l Reaping False joinable_task_SomeD [OF Some] sys_step.reap [OF l, of i ?S ?T]
        show ?thesis by (auto simp: listener_action_def)
      qed
    qed
  next
    case Accepting
    show ?thesis
    proof (cases "token_cancelled ?T (token ?s)")
      case True
      with assms l Accepting sys_step.cancelled [OF l _, of ?T ?S] show ?thesis
        by (auto simp: listener_action_def)
    next
      case False
      with assms l Accepting obtain res w1 where r: "fake_accept p w = (Some res, w1)" "a = AAccept p"
        by (auto simp: listener_action_def split: option.splits) (metis prod.collapse)
      with fake_accept_frame(1) [OF r(1)] have "running (perform R a w) = on_accept ?S ?T p res ?s"
        by (simp add: Let_def split: option.split listener.split)
      with l Accepting sys_step.accept [of ?s p ?S ?T res] show ?thesis by simp
    qed
  next
    case (Queueing sock)
    with assms l sys_step.queue [of ?s p sock ?S ?T] show ?thesis
      by (auto simp: listener_action_def Let_def split: if_splits)
  next
    case (Draining r d)
    show ?thesis
    proof (cases "joinable_task ?s p")
      case None
      with assms l Draining sys_step.drained [of ?s p r d ?S ?T] sys_step.deadline [of ?s p r d ?S ?T]
      show ?thesis by (auto simp: listener_action_def Let_def list_all_iff split: if_splits)
    next
      case (Some i)
      with assms l Draining joinable_task_SomeD [OF Some] sys_step.reap [OF l, of i ?S ?T]
      show ?thesis by (auto simp: listener_action_def)
    qed
  next
    case (Ended x)
    with assms l obtain fe where fe: "main_phase ?s = Joining fe" "a = AJoin p"
      by (auto simp: listener_action_def split: main_phase.splits)
    obtain tok fe' where "on_listener_joined ?T x (token ?s, fe) = (tok, fe')" by fastforce
    with fe l Ended sys_step.join [OF fe(1) _ this, of p ?S] show ?thesis by simp
  qed (use assms l in \<open>simp add: listener_action_def\<close>)
qed

definition world_ok :: "('sem, 'tok, 'e, 'w) proxy_world \<Rightarrow> bool" where
  "world_ok w \<longleftrightarrow> dom (listeners (running w)) \<subseteq> set (listening w)
     \<and> length (conns w) = length (conn_tasks (running w))"

lemma is_retired_iff: "is_retired l \<longleftrightarrow> (\<exists>x. l = Some (Retired x))"
  by (cases l rule: is_retired.cases) auto

lemma main_action_step:
  assumes "world_ok w" "main_action w = Some a"
  shows "world_step R w (perform R a w)"
proof -
  from assms(2) obtain fe where fe: "main_phase (running w) = Joining fe" "a = AReturn"
    "\<forall>p \<in> set (listening w). is_retired (listeners (running w) p)"
    by (auto simp: main_action_def list_all_iff split: main_phase.splits if_splits)
  have "\<forall>p l. listeners (running w) p = Some l \<longrightarrow> (\<exists>x. l = Retired x)"
  proof (intro allI impI)
    fix p l assume l: "listeners (running w) p = Some l"
    with assms(1) have "p \<in> set (listening w)" by (auto simp: world_ok_def)
    with fe(3) have "is_retired (listeners (running w) p)" by blast
    with l show "\<exists>x. l = Retired x" by (simp add: is_retired_iff)
  qed
  from sys_step.return [OF fe(1) this] fe show ?thesis by simp
qed

lemma first_some_SomeD: "first_some f xs = Some y \<Longrightarrow> \<exists>x \<in> set xs. f x = Some y"
  by (induction xs) (auto split: option.splits)

lemma next_action_step:
  assumes "world_ok w" "next_action R w = Some a"
  shows "world_step R w (perform R a w)"
proof -
  from assms(2) consider
    (task) i where "i < length (conn_tasks (running w))" "task_action w i = Some a"
    | (listener) p where "listener_action R w p = Some a"
    | (main) "main_action w = Some a"
    by (auto simp: next_action_def split: option.splits dest!: first_some_SomeD)
  then show ?thesis
  proof cases
    case task
    then show ?thesis by (rule task_action_step)
  next
    case listener
    then show ?thesis by (rule listener_action_step)
  next
    case main
    with assms(1) show ?thesis by (rule main_action_step)
  qed
qed

lemma length_spawned:
  "length (conn_tasks s) \<le> length (conn_tasks (on_accept S T p res s))"
  "length (conn_tasks s) \<le> length (conn_tasks (on_queueing S p sock s))"
  by (rule on_accept_effect [of S T p res s]; simp) (rule on_queueing_effect [of S s p sock]; simp)

lemma perform_listening [simp]: "listening (perform R a w) = listening w"
  by (cases a)
    (auto simp: Let_def split: option.split prod.split listener.split main_phase.split sum.split
      dest!: fake_accept_frame(2) fake_connect_frame(2))

lemma perform_length:
  assumes "length (conns w) = length (conn_tasks (running w))"
  shows "length (conns (perform R a w)) = length (conn_tasks (running (perform R a w)))"
proof (cases a)
  case (AAccept p)
  obtain r w1 where r: "fake_accept p w = (r, w1)" by fastforce
  with AAccept assms show ?thesis
    by (cases r) (simp_all add: Let_def fake_accept_frame [OF r] length_spawned split: option.split listener.split)
next
  case (AQueue p)
  with assms show ?thesis
    by (simp add: Let_def length_spawned split: option.split listener.split)
next
  case (AConnect i)
  obtain r w1 where r: "fake_connect_backend (task_port (conn_tasks (running w) ! i)) w = (r, w1)" by fastforce
  with AConnect assms show ?thesis
    by (simp add: fake_connect_frame [OF r] split: option.split prod.split sum.split)
next
  case (APoll i)
  with assms show ?thesis by (simp add: Let_def)
qed (use assms in \<open>simp_all split: option.split listener.split main_phase.split prod.split\<close>)

lemma perform_ok:
  assumes "world_ok w" "next_action R w = Some a"
  shows "world_ok (perform R a w)"
proof -
  have "dom (listeners (running (perform R a w))) = dom (listeners (running w))"
    using next_action_step [OF assms] dom_invariant [of "semaphores R" "tokens R" "running w"] by metis
  with assms(1) perform_length [of w R a] show ?thesis by (simp add: world_ok_def)
qed

lemma world_reaches:
  assumes "sys_reaches (semaphores R) (tokens R) s (running w)" "world_step R w v"
  shows "sys_reaches (semaphores R) (tokens R) s (running v)"
  using assms(2)
proof
  assume "running v = running w"
  with assms(1) show ?thesis by simp
next
  assume "sys_step (semaphores R) (tokens R) (running w) (running v)"
  with assms(1) show ?thesis by (rule sys_reaches.trans)
qed

lemma pump_ok [simp]: "world_ok (pump R w) \<longleftrightarrow> world_ok w"
  by (simp add: world_ok_def)

lemma settle_reaches:
  assumes "world_ok w" "sys_reaches (semaphores R) (tokens R) s (running w)"
  shows "world_ok (settle R n w) \<and> listening (settle R n w) = listening w
    \<and> sys_reaches (semaphores R) (tokens R) s (running (settle R n w))"
  using assms
proof (induction n arbitrary: w)
  case (Suc n)
  let ?w = "pump R w"
  have w: "world_ok ?w" "sys_reaches (semaphores R) (tokens R) s (running ?w)" using Suc.prems by simp_all
  show ?case
  proof (cases "next_action R ?w")
    case None
    with w show ?thesis by (simp add: Let_def)
  next
    case (Some a)
    note step = world_reaches [OF w(2) next_action_step [OF w(1) Some]]
    from Suc.IH [OF perform_ok [OF w(1) Some] step] Some show ?thesis by (simp add: Let_def)
  qed
qed simp


section \<open>The scheduler leaves nothing undone\<close>

text \<open>The work of a world: its tasks and what they still connect, its ports, and the main task.\<close>

definition conn_work :: "('sem, 'tok, 'e, 'w) proxy_world \<Rightarrow> nat" where
  "conn_work w = tasks_work (running w) + count_if (\<lambda>c. c = Connecting) (conns w)"

definition ports_work :: "('sem, 'tok, 'e, 'w) proxy_world \<Rightarrow> nat" where
  "ports_work w = sum_list (map (port_work w) (listening w))"

lemma world_work_eq: "world_work w = conn_work w + ports_work w + main_work (main_phase (running w))"
  by (simp add: world_work_def conn_work_def ports_work_def)

lemma ports_work_le:
  assumes "listening v = listening w" "\<And>p. port_work v p \<le> port_work w p"
  shows "ports_work v \<le> ports_work w"
  using assms by (simp add: ports_work_def sum_list_mono)

lemma ports_work_same:
  assumes "listening v = listening w" "listeners (running v) = listeners (running w)"
    and "accept_queues v = accept_queues w"
  shows "ports_work v = ports_work w"
proof -
  have "port_work v = port_work w" using assms(2,3) by (simp add: port_work_def fun_eq_iff)
  with assms(1) show ?thesis by (simp add: ports_work_def)
qed

text \<open>A port that moves on by \<open>k\<close>.\<close>

lemma ports_work_update:
  assumes "listening v = listening w" "p \<in> set (listening w)"
    and "\<And>q. q \<noteq> p \<Longrightarrow> port_work v q = port_work w q" "port_work v p + k \<le> port_work w p"
  shows "ports_work v + k \<le> ports_work w"
proof -
  from assms(2) obtain xs ys where split: "listening w = xs @ p # ys" by (auto simp: in_set_conv_decomp)
  have le: "port_work v q \<le> port_work w q" for q using assms(3) [of q] assms(4) by (cases "q = p") auto
  then have "sum_list (map (port_work v) zs) \<le> sum_list (map (port_work w) zs)" for zs
    by (intro sum_list_mono) simp
  from this [of xs] this [of ys] assms(1,4) split show ?thesis by (simp add: ports_work_def)
qed

lemma count_update_le:
  assumes "\<not> P y"
  shows "count_if P (xs[i := y]) \<le> count_if P xs"
proof (cases "i < length xs")
  case True
  from count_if_update [OF this, of P y] assms show ?thesis by (simp split: if_splits)
next
  case False
  then show ?thesis by (simp add: list_update_beyond)
qed

lemma end_conn_work [simp]: "conn_work (end_conn R i w) \<le> conn_work w"
  by (simp add: end_conn_def conn_work_def Let_def count_update_le split: conn.split)

lemma pump_one_work: "conn_work (pump_one R i w) \<le> conn_work w"
  using end_conn_work [of R i "w\<lparr>streams := st\<rparr>" for st]
  by (auto simp: pump_one_def conn_work_def split: conn.split prod.split option.split)

lemma pump_conn_work: "conn_work (pump R w) \<le> conn_work w"
proof -
  have "conn_work (fold (pump_one R) is v) \<le> conn_work v" for "is" v
  proof (induction "is" arbitrary: v)
    case (Cons i "is")
    from Cons.IH [of "pump_one R i v"] pump_one_work [of R i v] show ?case by simp
  qed simp
  then show ?thesis by (simp add: pump_def)
qed

lemma pump_work: "world_work (pump R w) \<le> world_work w"
  using pump_conn_work [of R w] ports_work_same [of "pump R w" w] by (simp add: world_work_eq)


lemma conn_work_spawn:
  assumes "length (conns w) = length (conn_tasks (running w))"
    and "conns v = conns w" "conn_tasks (running v) = conn_tasks (running w) @ [spawned p sock ph]"
  shows "conn_work (spawn_conns v) = conn_work w + phase_work ph + 2"
proof -
  have "spawn_conns v = v\<lparr>conns := conns w @ [Connecting]\<rparr>" using assms by (simp add: spawn_conns_def)
  moreover have "tasks_work (running v) = tasks_work (running w) + phase_work ph + 1"
    using assms(3) by (simp add: tasks_work_def phases_def flags_def spawned_def count_simps)
  ultimately show ?thesis by (simp add: conn_work_def count_simps)
qed

lemma conn_work_same:
  assumes "length (conns w) = length (conn_tasks (running w))"
    and "conns v = conns w" "conn_tasks (running v) = conn_tasks (running w)"
  shows "conn_work (spawn_conns v) = conn_work w"
  using assms by (simp add: spawn_conns_def conn_work_def tasks_work_def phases_def flags_def)

lemma world_work_less:
  assumes "conn_work v + ports_work v < conn_work w + ports_work w"
    and "main_work (main_phase (running v)) \<le> main_work (main_phase (running w))"
  shows "world_work v < world_work w"
  using assms by (simp add: world_work_eq)

lemma task_world_work_less:
  assumes "tasks_work (running v) < tasks_work (running w)" "conns v = conns w"
    and "listeners (running v) = listeners (running w)" "accept_queues v = accept_queues w"
    and "listening v = listening w" "main_phase (running v) = main_phase (running w)"
  shows "world_work v < world_work w"
  using assms ports_work_same [of v w] by (simp add: world_work_eq conn_work_def)

lemma end_conn_world_work:
  "world_work (end_conn R i w) \<le> world_work w"
  "conns w ! i = Connecting \<Longrightarrow> i < length (conns w) \<Longrightarrow> world_work (end_conn R i w) < world_work w"
proof -
  have ports: "ports_work (end_conn R i w) = ports_work w" by (rule ports_work_same) simp_all
  then show "world_work (end_conn R i w) \<le> world_work w" using end_conn_work [of R i w]
    by (simp add: world_work_eq)
  assume c: "conns w ! i = Connecting" "i < length (conns w)"
  then have "conn_work (end_conn R i w) < conn_work w"
    using count_if_update [of i "conns w" "\<lambda>c. c = Connecting" Served]
    by (simp add: end_conn_def conn_work_def Let_def)
  with ports show "world_work (end_conn R i w) < world_work w" by (simp add: world_work_eq)
qed

context semaphore
begin

lemma task_action_work:
  assumes "semaphores R = S" "sys_gate permits waiters opened m q (running w)" "world_ok w"
    and "i < length (conn_tasks (running w))" "task_action w i = Some a"
  shows "world_work (perform R a w) < world_work w"
proof -
  let ?s = "running w"
  have g: "gate m q (open_sem ?s) (queue_sem ?s) (phases ?s)" using assms(2) by (simp add: sys_gate_def)
  have abort: ?thesis if "a = AAbort i" "phase (conn_tasks ?s ! i) \<notin> {Leaving, Gone}"
  proof -
    let ?v = "w\<lparr>running := on_abort S i ?s\<rparr>"
    have "world_work ?v < world_work w"
      by (rule task_world_work_less) (use on_abort_work [OF g assms(4)] that in simp_all)
    with end_conn_world_work(1) [of R i ?v] that assms(1) show ?thesis by simp
  qed
  show ?thesis
  proof (cases "phase (conn_tasks ?s ! i)")
    case Unpolled
    let ?v = "w\<lparr>running := on_poll S i ?s\<rparr>"
    have "world_work ?v < world_work w"
      by (rule task_world_work_less) (use on_poll_work [OF g assms(4)] Unpolled in simp_all)
    with end_conn_world_work(1) [of R i ?v] assms(1,5) Unpolled abort show ?thesis
      by (auto simp: task_action_def Let_def split: if_splits)
  next
    case Waiting
    with assms(5) abort show ?thesis by (auto simp: task_action_def split: if_splits)
  next
    case Granted
    have "world_work (perform R (ALeaveQueue i) w) < world_work w"
      by (rule task_world_work_less) (use leave_queue_work assms(1,4) Granted in simp_all)
    with assms(5) Granted abort show ?thesis by (auto simp: task_action_def Let_def split: if_splits)
  next
    case Serving
    have finish: "world_work (perform R (AFinish i) w) < world_work w"
      by (rule task_world_work_less) (use finish_work [OF g assms(4)] assms(1) Serving in simp_all)
    have connect: "world_work (perform R (AConnect i) w) < world_work w" if c: "conns w ! i = Connecting"
    proof -
      obtain r w1 where r: "fake_connect_backend (task_port (conn_tasks ?s ! i)) w = (r, w1)" by fastforce
      note frame = fake_connect_frame [OF r]
      have same: "world_work w1 = world_work w"
        using frame ports_work_same [of w1 w] by (simp add: world_work_eq conn_work_def)
      have i: "i < length (conns w1)" "conns w1 ! i = Connecting" using assms(3,4) c frame by (simp_all add: world_ok_def)
      have "world_work (w1\<lparr>conns := (conns w1)[i := Copying b]\<rparr>) < world_work w1" for b
        using count_if_update [OF i(1), of "\<lambda>c. c = Connecting" "Copying b"] i
          ports_work_same [of "w1\<lparr>conns := (conns w1)[i := Copying b]\<rparr>" w1]
        by (simp add: world_work_eq conn_work_def)
      with end_conn_world_work(2) [OF i(2,1), of R] same r show ?thesis
        by (auto split: option.split sum.split prod.split)
    qed
    from Serving finish connect assms(5) abort show ?thesis
      by (auto simp: task_action_def Let_def split: if_splits conn.splits)
  next
    case Leaving
    have "world_work (perform R (ALeave i) w) < world_work w"
      by (rule task_world_work_less) (use leave_work assms(1,4) Leaving in simp_all)
    with assms(5) Leaving show ?thesis by (simp add: task_action_def Let_def)
  next
    case Gone
    with assms(5) show ?thesis by (simp add: task_action_def Let_def)
  qed
qed

text \<open>A step of a listener changes its own port only.\<close>

lemma port_world_work_less:
  assumes "p \<in> set (listening w)" "listening v = listening w"
    and "\<And>q. q \<noteq> p \<Longrightarrow> listeners (running v) q = listeners (running w) q \<and> accept_queues v q = accept_queues w q"
    and "conn_work v \<le> conn_work w + n" "port_work v p + n < port_work w p"
    and "main_work (main_phase (running v)) \<le> main_work (main_phase (running w))"
  shows "world_work v < world_work w"
proof -
  have "port_work v q = port_work w q" if "q \<noteq> p" for q
    using assms(3) [OF that] by (simp add: port_work_def)
  with assms(1,2,5) have "ports_work v + Suc n \<le> ports_work w" by (intro ports_work_update [of _ _ p]) auto
  with assms(4,6) show ?thesis by (intro world_work_less) auto
qed

lemma accept_work:
  assumes "world_ok w" "p \<in> set (listening w)" "listeners (running w) p = Some Accepting"
    and "fake_accept p w = (Some res, w1)" "semaphores R = S"
  shows "world_work (perform R (AAccept p) w) < world_work w"
proof -
  let ?s = "running w"
  from assms(4) obtain ack rest where q: "accept_queues w p = Some ((res, ack) # rest)"
    and w1: "w1 = w\<lparr>accept_queues := (accept_queues w)(p \<mapsto> rest), acks := ack # acks w\<rparr>"
    by (auto simp: fake_accept_def split: option.splits list.splits)
  have before: "port_work w p = 13 + 10 * length rest" using assms(3) q by (simp add: port_work_def)
  have len: "length (conns w) = length (conn_tasks ?s)" using assms(1) by (simp add: world_ok_def)
  let ?t = "on_accept S (tokens R) p res ?s"
  let ?v = "spawn_conns (w1\<lparr>running := ?t\<rparr>)"
  have v: "listening ?v = listening w" "running ?v = ?t" "accept_queues ?v = (accept_queues w)(p \<mapsto> rest)"
    "main_phase ?t = main_phase ?s"
    using w1 by simp_all
  have others: "listeners ?t q = listeners ?s q" if "q \<noteq> p" for q
    using on_accept_listeners [of S "tokens R" p res ?s] that by fastforce
  have same: "conn_work ?v = conn_work w" if "conn_tasks ?t = conn_tasks ?s"
    by (rule conn_work_same [OF len]) (use w1 that in simp_all)
  note less = port_world_work_less [OF assms(2)]
  show ?thesis
  proof (cases "classify_accept res")
    case (Inl r)
    show ?thesis
    proof (cases "\<exists>e. r = PermanentError e")
      case True
      with Inl obtain e where t: "listeners ?t p = Some (Draining (Err e) (clock ?s + DRAIN_DEADLINE))"
        "conn_tasks ?t = conn_tasks ?s"
        by (auto simp: on_accept_def)
      have "world_work (drop_listener R p ?v) < world_work w"
        by (rule less [of _ 0])
          (use v others t before same in \<open>simp_all add: port_work_def conn_work_def\<close>)
      with t v assms(4,5) show ?thesis by (simp add: Let_def)
    next
      case False
      with Inl have t: "?t = set_listener p Reaping ?s" by (auto simp: on_accept_def split: accept_result.split)
      have "world_work ?v < world_work w"
        by (rule less [of _ 0]) (use v t before same in \<open>simp_all add: port_work_def\<close>)
      with t v assms(4,5) show ?thesis by (simp add: Let_def)
    qed
  next
    case (Inr sock)
    show ?thesis
    proof (cases "accept_open S p sock (open_sem ?s) (conn_tasks ?s)")
      case None
      with Inr have t: "?t = set_listener p (Queueing sock) ?s" by (simp add: on_accept_def)
      have "world_work ?v < world_work w"
        by (rule less [of _ 0]) (use v t before same in \<open>simp_all add: port_work_def\<close>)
      with t v assms(4,5) show ?thesis by (simp add: Let_def)
    next
      case (Some sem_ts)
      then obtain sem where sem: "sem_ts = (sem, conn_tasks ?s @ [spawned p sock Serving])"
        by (auto simp: accept_open_def split: option.splits)
      with Some Inr have t: "?t = set_listener p Reaping
          (?s\<lparr>open_sem := sem, conn_tasks := conn_tasks ?s @ [spawned p sock Serving]\<rparr>)"
        by (simp add: on_accept_def)
      have "conn_work ?v = conn_work w + phase_work Serving + 2"
        by (rule conn_work_spawn [OF len]) (use t w1 in simp_all)
      then have "world_work ?v < world_work w"
        by (intro less [of _ 3]) (use v t before in \<open>simp_all add: port_work_def\<close>)
      with t v assms(4,5) show ?thesis by (simp add: Let_def)
    qed
  qed
qed

lemma queue_work:
  assumes "world_ok w" "p \<in> set (listening w)" "listeners (running w) p = Some (Queueing sock)"
    and "semaphores R = S"
  shows "world_work (perform R (AQueue p) w) < world_work w"
proof -
  let ?s = "running w" and ?t = "on_queueing S p sock (running w)"
  let ?v = "spawn_conns (w\<lparr>running := ?t\<rparr>)"
  have before: "port_work w p = 12 + 10 * (case accept_queues w p of Some q \<Rightarrow> length q | None \<Rightarrow> 0)"
    using assms(3) by (simp add: port_work_def)
  have len: "length (conns w) = length (conn_tasks ?s)" using assms(1) by (simp add: world_ok_def)
  have t: "listeners ?t = (listeners ?s)(p \<mapsto> Reaping)" "main_phase ?t = main_phase ?s"
    by (rule on_queueing_effect [of S ?s p sock]; simp)+
  have "conn_work ?v \<le> conn_work w + 7"
  proof (rule on_queueing_effect [of S ?s p sock])
    assume "?t = set_listener p Reaping ?s"
    then have "conn_work ?v = conn_work w" by (intro conn_work_same [OF len]) simp_all
    then show ?thesis by simp
  next
    fix qs' assume "?t = set_listener p Reaping
      (?s\<lparr>queue_sem := qs', conn_tasks := conn_tasks ?s @ [spawned p sock Unpolled]\<rparr>)"
    then have "conn_work ?v = conn_work w + phase_work Unpolled + 2"
      by (intro conn_work_spawn [OF len]) simp_all
    then show ?thesis by simp
  qed
  then have "world_work ?v < world_work w"
    by (intro port_world_work_less [OF assms(2), of _ 7]) (use t before in \<open>simp_all add: port_work_def\<close>)
  moreover have "world_work (drop_stream R sock ?v) = world_work ?v"
    using ports_work_same [of "drop_stream R sock ?v" ?v] by (simp add: world_work_eq conn_work_def)
  ultimately show ?thesis using assms(3,4) by (simp add: Let_def)
qed

lemma listener_action_work:
  assumes "semaphores R = S" "world_ok w" "p \<in> set (listening w)" "listener_action R w p = Some a"
  shows "world_work (perform R a w) < world_work w"
proof -
  let ?s = "running w" and ?T = "tokens R"
  obtain l where l: "listeners ?s p = Some l"
    using assms(4) by (auto simp: listener_action_def Let_def split: option.splits)
  have reap: "world_work (perform R (AReap p i) w) < world_work w" if "joinable_task ?s p = Some i" for i
    using joinable_task_SomeD [OF that] tasks_work_join_task [of i ?s]
    by (intro task_world_work_less) (simp_all add: joinable_def)
  have cancel: "world_work (perform R (ACancel p) w) < world_work w" if "l = Reaping \<or> l = Accepting"
    using that l by (intro port_world_work_less [OF assms(3), of _ 0]) (auto simp: port_work_def conn_work_def)
  show ?thesis
  proof (cases l)
    case Reaping
    have start: "world_work (perform R (AStartAccept p) w) < world_work w"
      using l Reaping by (intro port_world_work_less [OF assms(3), of _ 0]) (auto simp: port_work_def conn_work_def)
    show ?thesis
      using assms(4) l Reaping start reap cancel
      by (cases "joinable_task ?s p") (auto simp: listener_action_def Let_def split: if_splits)
  next
    case Accepting
    show ?thesis
    proof (cases "token_cancelled ?T (token ?s)")
      case True
      with assms(4) l Accepting cancel show ?thesis by (auto simp: listener_action_def)
    next
      case False
      with assms(4) l Accepting obtain res w1 where "fake_accept p w = (Some res, w1)" "a = AAccept p"
        by (auto simp: listener_action_def split: option.splits) (metis prod.collapse)
      with accept_work [OF assms(2,3)] l Accepting assms(1) show ?thesis by blast
    qed
  next
    case (Queueing sock)
    with assms(4) l queue_work [OF assms(2,3)] assms(1) show ?thesis
      by (auto simp: listener_action_def Let_def)
  next
    case (Draining r d)
    have "world_work (perform R (ADrained p) w) < world_work w" "world_work (perform R (ADeadline p) w) < world_work w"
      using l Draining
      by (intro port_world_work_less [OF assms(3), of _ 0]; auto simp: port_work_def conn_work_def)+
    with assms(4) l Draining reap show ?thesis
      by (cases "joinable_task ?s p") (auto simp: listener_action_def Let_def split: if_splits)
  next
    case (Ended x)
    with assms(4) l obtain fe where fe: "main_phase ?s = Joining fe" "a = AJoin p"
      by (auto simp: listener_action_def split: main_phase.splits)
    obtain tok fe' where "on_listener_joined ?T x (token ?s, fe) = (tok, fe')" by fastforce
    with fe l Ended show ?thesis
      by (intro port_world_work_less [OF assms(3), of _ 0])
        (auto simp: port_work_def conn_work_def tasks_work_def flags_def)
  qed (use assms(4) l in \<open>simp add: listener_action_def\<close>)
qed

lemma next_action_work:
  assumes "semaphores R = S" "sys_gate permits waiters opened m q (running w)" "world_ok w"
    and "next_action R w = Some a"
  shows "world_work (perform R a w) < world_work w"
proof -
  from assms(4) consider
    (task) i where "i < length (conn_tasks (running w))" "task_action w i = Some a"
    | (listener) p where "p \<in> set (listening w)" "listener_action R w p = Some a"
    | (main) "main_action w = Some a"
    by (auto simp: next_action_def split: option.splits dest!: first_some_SomeD)
  then show ?thesis
  proof cases
    case task
    then show ?thesis by (rule task_action_work [OF assms(1-3)])
  next
    case listener
    then show ?thesis by (rule listener_action_work [OF assms(1,3)])
  next
    case main
    then obtain fe where "main_phase (running w) = Joining fe" "a = AReturn"
      by (auto simp: main_action_def split: main_phase.splits if_splits)
    then show ?thesis
      using ports_work_same [of "perform R AReturn w" w]
      by (simp add: world_work_eq conn_work_def tasks_work_def flags_def)
  qed
qed

lemma settle_quiescent:
  assumes "semaphores R = S" "world_ok w" "sys_gate permits waiters opened m q (running w)"
    and "world_work w \<le> n"
  shows "next_action R (settle R (Suc n) w) = None"
  using assms(2-4)
proof (induction n arbitrary: w)
  case 0
  let ?w = "pump R w"
  have "next_action R ?w = None"
  proof (rule ccontr)
    assume "next_action R ?w \<noteq> None"
    then obtain a where "next_action R ?w = Some a" by auto
    from next_action_work [OF assms(1) _ _ this] 0 pump_work [of R w] show False by simp
  qed
  then show ?case by (simp add: Let_def)
next
  case (Suc n)
  let ?w = "pump R w"
  have w: "world_ok ?w" "sys_gate permits waiters opened m q (running ?w)" using Suc.prems by simp_all
  show ?case
  proof (cases "next_action R ?w")
    case None
    then show ?thesis by (simp add: Let_def)
  next
    case (Some a)
    have "world_work (perform R a ?w) \<le> n"
      using next_action_work [OF assms(1) w(2,1) Some] pump_work [of R w] Suc.prems(3) by simp
    moreover have "sys_gate permits waiters opened m q (running (perform R a ?w))"
      using next_action_step [OF w(1) Some] sys_step_gate [OF _ w(2)] w(2) assms(1) by auto
    ultimately have "next_action R (settle R (Suc n) (perform R a ?w)) = None"
      using Suc.IH [OF perform_ok [OF w(1) Some]] by simp
    then show ?thesis using Some unfolding settle.simps(2) [of R "Suc n"] by (simp add: Let_def)
  qed
qed

end

section \<open>Harness runs\<close>

text \<open>What a test can do with a harness: its calls, waits on streams, and dropping or closing ends.\<close>

inductive harness_run ::
  "('sem, 'tok, 'e, 'w) runtime \<Rightarrow> ('sem, 'tok, 'e, 'w) proxy_harness
   \<Rightarrow> ('sem, 'tok, 'e, 'w) proxy_harness \<Rightarrow> bool"
  for R :: "('sem, 'tok, 'e, 'w) runtime" and h0 :: "('sem, 'tok, 'e, 'w) proxy_harness" where
  start: "harness_run R h0 h0"
| proxied: "harness_run R h0 h \<Longrightarrow> proxied R port h = Some (ends, h') \<Longrightarrow> harness_run R h0 h'"
| accept_fail: "harness_run R h0 h \<Longrightarrow> accept_fail R port e h = Some h' \<Longrightarrow> harness_run R h0 h'"
| connect_fail: "harness_run R h0 h \<Longrightarrow> backend_connect_fail R port e h = Some (client, h') \<Longrightarrow>
    harness_run R h0 h'"
| no_backend: "harness_run R h0 h \<Longrightarrow> no_backend R port h = Some (client, h') \<Longrightarrow> harness_run R h0 h'"
| cancel: "harness_run R h0 h \<Longrightarrow> harness_run R h0 (harness_cancel R h)"
| join: "harness_run R h0 h \<Longrightarrow> harness_join R h = Some (r, h') \<Longrightarrow> harness_run R h0 h'"
| reading: "harness_run R h0 h \<Longrightarrow>
    await R d (on_streams f) (world h) = (x :: (io_error + string) option, w) \<Longrightarrow>
    harness_run R h0 (h\<lparr>world := w\<rparr>)"
| writing: "harness_run R h0 h \<Longrightarrow>
    await R d (on_streams f) (world h) = (x :: (io_error + unit) option, w) \<Longrightarrow>
    harness_run R h0 (h\<lparr>world := w\<rparr>)"
| touch: "harness_run R h0 h \<Longrightarrow> harness_run R h0 (h\<lparr>world := (world h)\<lparr>streams := st\<rparr>\<rparr>)"

definition world_inv ::
  "('sem, 'tok, 'e, 'w) runtime \<Rightarrow> ('sem, 'tok, 'e) sys \<Rightarrow> ('sem, 'tok, 'e, 'w) proxy_world \<Rightarrow> bool" where
  "world_inv R s w \<longleftrightarrow> world_ok w \<and> sys_reaches (semaphores R) (tokens R) s (running w)"

lemma settled_inv: "world_inv R s w \<Longrightarrow> world_inv R s (settled R w)"
  using settle_reaches [of w R s] by (simp add: world_inv_def settled_def del: settle.simps)

lemma advance_inv:
  assumes "world_inv R s w"
  shows "world_inv R s (advance_to d w)"
  using assms sys_reaches.trans [OF _ sys_step.tick, of "semaphores R" "tokens R" s "running w"]
  by (simp add: world_inv_def world_ok_def advance_to_def)

lemma world_inv_fields [simp]:
  "world_inv R s (w\<lparr>streams := st\<rparr>) = world_inv R s w"
  "world_inv R s (w\<lparr>accept_queues := qs\<rparr>) = world_inv R s w"
  "world_inv R s (w\<lparr>connect_queues := cs\<rparr>) = world_inv R s w"
  by (simp_all add: world_inv_def world_ok_def)

lemma await_loop_inv:
  assumes "\<And>w x w'. poll w = (x, w') \<Longrightarrow> world_inv R s w \<Longrightarrow> world_inv R s w'"
    and "world_inv R s w" "await_loop R n deadline poll w = (x, w')"
  shows "world_inv R s w'"
  using assms(2,3)
proof (induction n arbitrary: w)
  case 0
  obtain y w1 where p: "poll (settled R w) = (y, w1)" by fastforce
  with 0(2) have "w' = w1"
    by (cases y) (simp_all add: await_loop.simps [of R 0])
  with assms(1) [OF p settled_inv [OF 0(1)]] show ?case by simp
next
  case (Suc n)
  obtain y w1 where p: "poll (settled R w) = (y, w1)" by fastforce
  have w1: "world_inv R s w1" using assms(1) [OF p settled_inv [OF Suc.prems(1)]] .
  show ?case
  proof (cases y)
    case (Some z)
    with Suc.prems(2) p w1 show ?thesis by (simp add: await_loop.simps [of R "Suc n"])
  next
    case None
    show ?thesis
    proof (cases "earliest deadline (timers w1)")
      case None
      with \<open>y = None\<close> Suc.prems(2) p w1 show ?thesis by (simp add: await_loop.simps [of R "Suc n"])
    next
      case (Some d)
      with \<open>y = None\<close> Suc.prems(2) p advance_inv [OF w1, of d] Suc.IH [of "advance_to d w1"] show ?thesis
        by (simp add: await_loop.simps [of R "Suc n"] split: if_splits)
    qed
  qed
qed

lemma await_inv:
  assumes "world_inv R s w" "await R d poll w = (x, w')"
    and "\<And>w x w'. poll w = (x, w') \<Longrightarrow> world_inv R s w \<Longrightarrow> world_inv R s w'"
  shows "world_inv R s w'"
  using await_loop_inv [OF assms(3,1)] assms(2) by (simp add: await_def)

abbreviation harness_inv ::
  "('sem, 'tok, 'e, 'w) runtime \<Rightarrow> ('sem, 'tok, 'e) sys \<Rightarrow> ('sem, 'tok, 'e, 'w) proxy_harness \<Rightarrow> bool" where
  "harness_inv R s h \<equiv> world_inv R s (world h)"

lemma on_streams_inv: "on_streams f w = (x, w') \<Longrightarrow> world_inv R s w \<Longrightarrow> world_inv R s w'"
  by (auto simp: on_streams_def split: prod.splits)

lemma await_ack_inv:
  assumes "await_ack R ack h = Some h'" "harness_inv R s h"
  shows "harness_inv R s h'"
proof -
  from assms(1) obtain w where w: "await R (Some (from_secs 5))
      (\<lambda>w. (if ack \<in> set (acks w) then Some () else None, w)) (world h) = (Some (), w)" "h' = h\<lparr>world := w\<rparr>"
    by (auto simp: await_ack_def await_some_def split: prod.splits option.splits)
  from await_inv [OF assms(2) w(1)] w(2) show ?thesis by simp
qed

lemma harness_op_inv:
  "new_duplex R h = (ends, h') \<Longrightarrow> harness_inv R s h' = harness_inv R s h"
  "next_client_sock h = Some (sock, h') \<Longrightarrow> harness_inv R s h' = harness_inv R s h"
  "next_backend_sock h = Some (sock, h') \<Longrightarrow> harness_inv R s h' = harness_inv R s h"
  "send_accept port command h = Some h' \<Longrightarrow> harness_inv R s h' = harness_inv R s h"
  "send_connect port cmd h = Some h' \<Longrightarrow> harness_inv R s h' = harness_inv R s h"
  by (auto simp: new_duplex_def on_streams_def next_client_sock_def next_backend_sock_def
      send_accept_def send_connect_def bind_eq_Some_conv split: prod.splits option.splits)

lemmas harness_call_defs = proxied_def accept_fail_def backend_connect_fail_def no_backend_def new_ack_def
  bind_eq_Some_conv

lemma proxied_inv:
  "proxied R port h = Some (ends, h') \<Longrightarrow> harness_inv R s h \<Longrightarrow> harness_inv R s h'"
  "accept_fail R port e h = Some h' \<Longrightarrow> harness_inv R s h \<Longrightarrow> harness_inv R s h'"
  "backend_connect_fail R port e h = Some (client, h') \<Longrightarrow> harness_inv R s h \<Longrightarrow> harness_inv R s h'"
  "no_backend R port h = Some (client, h') \<Longrightarrow> harness_inv R s h \<Longrightarrow> harness_inv R s h'"
  by (auto simp: harness_call_defs dest!: harness_op_inv [where s = s] await_ack_inv [where s = s]
      split: prod.splits)

lemma cancel_inv: "harness_inv R s h \<Longrightarrow> harness_inv R s (harness_cancel R h)"
  using sys_reaches.trans [OF _ sys_step.signal, of "semaphores R" "tokens R" s "running (world h)"]
  by (simp add: harness_cancel_def world_inv_def world_ok_def)

lemma join_inv:
  assumes "harness_join R h = Some (r, h')" "harness_inv R s h"
  shows "harness_inv R s h'"
proof -
  let ?poll = "\<lambda>w. (case main_phase (running w) of Returned r \<Rightarrow> Some r | Joining fe \<Rightarrow> None, w)"
  from assms(1) obtain w where w: "await R None ?poll (world h) = (Some r, w)" "h' = h\<lparr>world := w\<rparr>"
    by (auto simp: harness_join_def await_some_def split: prod.splits option.splits)
  from await_inv [OF assms(2) w(1)] w(2) show ?thesis by simp
qed

lemma harness_run_inv:
  assumes "harness_run R h0 h" "harness_inv R s h0"
  shows "harness_inv R s h"
  using assms
proof (induction rule: harness_run.induct)
  case (reading h d f x w)
  with await_inv [OF _ reading.hyps(2) on_streams_inv] show ?case by simp
next
  case (writing h d f x w)
  with await_inv [OF _ writing.hyps(2) on_streams_inv] show ?case by simp
qed (auto dest: proxied_inv cancel_inv join_inv)

lemma harness_start_inv:
  fixes R :: "('sem, 'tok, 'e, 'w) runtime"
  assumes "harness_start R now st b = Some h0" "main_phase (running (world h0)) = Joining None"
  shows "\<exists>srv. proxy_server_new (semaphores R) () () (builder_config b) (token_new (tokens R))
      (builder_max_connections b) (builder_max_queue b) (V6 (replicate 8 0)) (1024 * 8) = Some srv
    \<and> harness_inv R (sys_start srv (server_ports srv) now) h0"
proof -
  let ?new = "proxy_server_new (semaphores R) () () (builder_config b) (token_new (tokens R))
      (builder_max_connections b) (builder_max_queue b) (V6 (replicate 8 0)) (1024 * 8)"
  from assms(1) obtain behaviors accepts srv where srv: "?new = Some srv"
    and w: "server_world now st (builder_config b) srv behaviors accepts = Some (world h0)"
    by (auto simp: harness_start_def bind_eq_Some_conv split: prod.splits)
  obtain r beh p where run: "proxy_run fake_bind srv now (behaviors, False)
      = (r :: proxy_error + ('sem, 'tok, 'e) sys, beh, p)"
    by (rule prod_cases3)
  with w assms(2) obtain s where s: "r = Ok s" "running (world h0) = s"
    "listening (world h0) = server_ports srv" "conns (world h0) = []"
    by (cases r; cases p) (auto simp: server_world_def dest!: sym [of _ "world h0"])
  from proxy_run_OkD [of fake_bind srv now "(behaviors, False)"] run s(1)
  have "s = sys_start srv (server_ports srv) now" by simp
  with s srv show ?thesis
    by (auto simp: world_inv_def world_ok_def sys_start_def intro: sys_reaches.refl split: if_splits)
qed

end
