(* ===== verification/Proxy_Tests.thy ===== *)
theory Proxy_Tests
  imports Schedule_Properties "HOL-Library.Code_Target_Nat"
begin

text \<open>
  The unit tests of \<open>src/proxy.rs\<close>, each as a computation on the harness. They take the runtime as a
  parameter, as the code takes tokio, and are run with the fair semaphore, the flag and the byte
  queues.
\<close>

section \<open>Assertions on streams\<close>









section \<open>The tests\<close>























section \<open>The harness and the server\<close>









end
